theory Spec2Isabelle
  imports
    Main
    "HOL-Library.Sublist"
    "HOL-Library.Char_ord"
    "HOL-Library.List_Lexorder"
begin

section \<open>Strings\<close>

text \<open>
  A Python \<open>str\<close> is modelled as a \<open>string\<close>: the UTF-8 bytes of the text. Substring
  search, \<open>startswith\<close>, \<open>endswith\<close>, \<open>replace\<close>, equality and the code-point order of
  Python agree with their byte-wise counterparts on UTF-8 text.
\<close>

text \<open>
  \<open>str.lower\<close>. The ASCII letters \<open>A\<close> .. \<open>Z\<close> become \<open>a\<close> .. \<open>z\<close>. Two code points
  outside ASCII have a lowercase form with an ASCII letter in it: the Kelvin sign U+212A
  (bytes E2 84 AA) becomes \<open>k\<close>, and the capital I with dot above U+0130 (bytes C4 B0)
  becomes \<open>i\<close> followed by the combining dot above U+0307 (bytes CC 87). Every other
  code point outside ASCII has a lowercase form outside ASCII; its bytes are kept as
  they are. The program compares lowercased text with ASCII constants only (by \<open>in\<close>
  and by \<open>==\<close>), and these comparisons read the ASCII bytes of the text and where the
  other bytes stand, not which bytes they are (\<open>get_app_category_reads_skeleton\<close>,
  \<open>format_source_reads_skeleton\<close> and \<open>should_include_app_reads_skeleton\<close> below).
\<close>

definition lower_char :: "char \<Rightarrow> char" where
  "lower_char c =
     (case map_of (zip ''ABCDEFGHIJKLMNOPQRSTUVWXYZ'' ''abcdefghijklmnopqrstuvwxyz'') c of
        Some l \<Rightarrow> l
      | None \<Rightarrow> c)"

definition kelvin_sign :: string where
  "kelvin_sign = [CHR 0xE2, CHR 0x84, CHR 0xAA]"

definition capital_i_with_dot :: string where
  "capital_i_with_dot = [CHR 0xC4, CHR 0xB0]"

definition small_i_with_dot :: string where
  "small_i_with_dot = [CHR ''i'', CHR 0xCC, CHR 0x87]"

fun lower :: "string \<Rightarrow> string" where
  "lower [] = []"
| "lower (c # cs) =
     (if prefix kelvin_sign (c # cs) then CHR ''k'' # lower (drop 2 cs)
      else if prefix capital_i_with_dot (c # cs) then small_i_with_dot @ lower (drop 1 cs)
      else lower_char c # lower cs)"

text \<open>
  What a comparison with ASCII text can see of a string: its ASCII bytes (the bytes
  below 0x80), and for each run of other bytes that there is one. Python's \<open>str.lower\<close>
  and \<open>lower\<close> give strings with the same skeleton.
\<close>

definition ascii :: "char \<Rightarrow> bool" where
  "ascii c = (\<not> digit7 c)"

fun skeleton :: "string \<Rightarrow> char option list" where
  "skeleton [] = []"
| "skeleton (c # cs) =
     (if ascii c then Some c # skeleton cs
      else (case skeleton cs of None # rest \<Rightarrow> None # rest | rest \<Rightarrow> None # rest))"

text \<open>\<open>str_in sub s\<close> is Python's \<open>sub in s\<close> on strings.\<close>

fun str_in :: "string \<Rightarrow> string \<Rightarrow> bool" where
  "str_in sub [] = (sub = [])"
| "str_in sub (c # cs) = (prefix sub (c # cs) \<or> str_in sub cs)"

definition startswith :: "string \<Rightarrow> string \<Rightarrow> bool" where
  "startswith s pre = prefix pre s"

definition endswith :: "string \<Rightarrow> string \<Rightarrow> bool" where
  "endswith s suf = prefix (rev suf) (rev s)"

text \<open>
  \<open>replace s old new\<close> is Python's \<open>s.replace(old, new)\<close>: every non-overlapping
  occurrence of \<open>old\<close>, found from the left, is replaced by \<open>new\<close>. \<open>replace_from\<close>
  walks the string; its first argument counts the characters of a replaced occurrence
  that are still to be skipped. An empty \<open>old\<close> matches before every character and at
  the end.
\<close>

fun replace_from :: "nat \<Rightarrow> string \<Rightarrow> string \<Rightarrow> string \<Rightarrow> string" where
  "replace_from skip old new [] = []"
| "replace_from (Suc skip) old new (c # cs) = replace_from skip old new cs"
| "replace_from 0 old new (c # cs) =
     (if prefix old (c # cs) then new @ replace_from (length old - 1) old new cs
      else c # replace_from 0 old new cs)"

definition replace :: "string \<Rightarrow> string \<Rightarrow> string \<Rightarrow> string" where
  "replace s old new =
     (if old = [] then new @ concat (map (\<lambda>c. c # new) s)
      else replace_from 0 old new s)"

section \<open>Classifier: \<open>get_app_category\<close>\<close>

text \<open>The fixed CategoryName values of the data model.\<close>

definition category_names :: "string list" where
  "category_names =
     [''Development'', ''Browsers & Internet'', ''Security & Privacy'', ''Productivity'',
      ''Utilities'', ''Media & Creative'', ''Cloud Storage'', ''Virtualization'', ''Other'']"

text \<open>The dict literal \<open>special_cases\<close>, in source order (its keys are distinct).\<close>

definition special_cases :: "(string \<times> string) list" where
  "special_cases =
     [(''Google Slides'', ''Productivity''),
      (''Google Docs'', ''Productivity''),
      (''Google Sheets'', ''Productivity''),
      (''Keynote'', ''Productivity''),
      (''Pages'', ''Productivity''),
      (''Numbers'', ''Productivity''),
      (''Obsidian'', ''Productivity''),
      (''OnyX'', ''Utilities''),
      (''SteerMouse'', ''Utilities''),
      (''Tabby'', ''Development''),
      (''Ubuntu'', ''Virtualization''),
      (''Yubico Authenticator'', ''Security & Privacy''),
      (''iStat Menus'', ''Utilities''),
      (''iStat Menus Helper'', ''Utilities''),
      (''iStat Menus Menubar'', ''Utilities''),
      (''Scam Copilot'', ''Security & Privacy''),
      (''Rectangle Pro'', ''Utilities''),
      (''AppCleaner'', ''Utilities''),
      (''Bartender 5'', ''Utilities''),
      (''ForkLift'', ''Utilities''),
      (''Swift Quit'', ''Utilities'')]"

text \<open>
  The dict literal \<open>categories\<close>; a Python 3 dict iterates in insertion order, which is
  the order of this list.
\<close>

definition categories :: "(string \<times> string list) list" where
  "categories =
     [(''Development'',
        [''Visual Studio Code'', ''Xcode'', ''Docker'', ''iTerm'', ''Python'',
         ''Developer'', ''IDE'', ''Terminal'', ''Code'', ''Git'']),
      (''Browsers & Internet'',
        [''Chrome'', ''Firefox'', ''Safari'', ''Opera'', ''Edge'', ''Arc'', ''Browser'']),
      (''Security & Privacy'',
        [''1Password'', ''Bitwarden'', ''VPN'', ''Antivirus'', ''Bitdefender'',
         ''Password'', ''Security'', ''Radio Silence'', ''Yubico'', ''Scam'']),
      (''Productivity'',
        [''Office'', ''Docs'', ''Sheets'', ''Slides'', ''Notes'', ''Task'',
         ''Calendar'', ''Mail'', ''Presentation'', ''Document'']),
      (''Utilities'',
        [''Rectangle'', ''Bartender'', ''AppCleaner'', ''ForkLift'',
         ''Utility'', ''Cleaner'', ''Manager'', ''Stats'', ''Monitor'',
         ''Helper'', ''Menu'']),
      (''Media & Creative'',
        [''DaVinci'', ''Luminar'', ''Screen'', ''Spotify'',
         ''Music'', ''Photo'', ''Video'', ''Audio'', ''Creative'', ''Media'']),
      (''Cloud Storage'',
        [''Google Drive'', ''Dropbox'', ''iCloud'', ''OneDrive'', ''Box'', ''Sync'']),
      (''Virtualization'',
        [''Parallels'', ''VMware'', ''VirtualBox'', ''Virtual'', ''VM'', ''Linux'',
         ''Windows'', ''Ubuntu''])]"

text \<open>\<open>any(keyword.lower() in app_name_lower for keyword in keywords)\<close>\<close>

definition any_keyword :: "string list \<Rightarrow> string \<Rightarrow> bool" where
  "any_keyword keywords app_name_lower =
     list_ex (\<lambda>keyword. str_in (lower keyword) app_name_lower) keywords"

text \<open>The loop over \<open>categories.items()\<close> with its early \<open>return\<close>, and the final \<open>return "Other"\<close>.\<close>

fun keyword_scan :: "(string \<times> string list) list \<Rightarrow> string \<Rightarrow> string" where
  "keyword_scan [] app_name_lower = ''Other''"
| "keyword_scan ((category, keywords) # rest) app_name_lower =
     (if any_keyword keywords app_name_lower then category
      else keyword_scan rest app_name_lower)"

definition get_app_category :: "string \<Rightarrow> string \<Rightarrow> string" where
  "get_app_category app_name path =
     (case map_of special_cases app_name of
        Some category \<Rightarrow> category
      | None \<Rightarrow>
          if str_in ''ubuntu'' (lower app_name) then ''Virtualization''
          else keyword_scan categories (lower app_name))"

section \<open>Inclusion filter and source formatting\<close>

text \<open>
  An application record: the dict built by \<open>get_installed_apps\<close>, with its five keys.
  The record is polymorphic in the type of the values: the fetcher stores whatever JSON
  values the inventory holds, the rest of the program works on records of strings.
\<close>

record 'a app_info =
  name :: 'a
  path :: 'a
  version :: 'a
  obtained_from :: 'a
  last_modified :: 'a

definition source_map :: "(string \<times> string) list" where
  "source_map =
     [(''mac_app_store'', ''App Store''),
      (''identified_developer'', ''Verified Dev''),
      (''unknown'', ''Unknown''),
      (''apple'', ''Apple'')]"

definition format_source :: "string \<Rightarrow> string" where
  "format_source src =
     (case map_of source_map (lower src) of Some shown \<Rightarrow> shown | None \<Rightarrow> src)"

definition excluded_apps :: "string list" where
  "excluded_apps = [''GarageBand'', ''iMovie'', ''Keynote'', ''Numbers'', ''Pages'']"

definition system_prefixes :: "string list" where
  "system_prefixes = [''/System/Library/'', ''/System/Applications/'', ''/Library/Apple/'']"

text \<open>
  Every record that reaches \<open>should_include_app\<close> has the keys \<open>obtained_from\<close> and
  \<open>path\<close>, so the defaults of the two \<open>app.get\<close> calls are never used.
\<close>

definition should_include_app :: "string app_info \<Rightarrow> bool" where
  "should_include_app app =
     (if name app \<in> set excluded_apps then False
      else if lower (obtained_from app) = ''apple'' then False
      else if list_ex (\<lambda>pre. startswith (path app) pre) system_prefixes then False
      else True)"

section \<open>Reporter: \<open>main\<close>\<close>

text \<open>A display entry: the dict with the keys \<open>name\<close>, \<open>version\<close> and \<open>source\<close>.\<close>

record entry =
  name' :: string
  version' :: string
  source :: string

text \<open>
  \<open>categorized_apps\<close> is a \<open>defaultdict(list)\<close>: an insertion-ordered dict, here the list
  of its items. \<open>append_to category e d\<close> is \<open>d[category].append(e)\<close>.
\<close>

type_synonym categorized = "(string \<times> entry list) list"

fun append_to :: "string \<Rightarrow> entry \<Rightarrow> categorized \<Rightarrow> categorized" where
  "append_to category e [] = [(category, [e])]"
| "append_to category e ((k, es) # rest) =
     (if k = category then (k, es @ [e]) # rest
      else (k, es) # append_to category e rest)"

text \<open>The loop \<open>for app in installed_apps\<close>, with the dict as accumulator.\<close>

fun categorize :: "string set \<Rightarrow> string app_info list \<Rightarrow> categorized \<Rightarrow> categorized" where
  "categorize system_apps [] categorized_apps = categorized_apps"
| "categorize system_apps (app # rest) categorized_apps =
     (let app_name = name app in
      if app_name \<notin> system_apps \<and> should_include_app app then
        let category = get_app_category app_name (path app);
            app_info = \<lparr>name' = app_name, version' = version app,
                        source = format_source (obtained_from app)\<rparr>
        in categorize system_apps rest (append_to category app_info categorized_apps)
      else categorize system_apps rest categorized_apps)"

text \<open>The bullet U+2022, as its three UTF-8 bytes.\<close>

definition bullet :: string where
  "bullet = [CHR 0xE2, CHR 0x80, CHR 0xA2]"

text \<open>The console is the list of the strings passed to \<open>print\<close>, in order.\<close>

definition entry_line :: "entry \<Rightarrow> string" where
  "entry_line app =
     (if version' app \<noteq> ''Unknown''
      then bullet @ '' '' @ name' app @ '' (v'' @ version' app @ '') ['' @ source app @ '']''
      else bullet @ '' '' @ name' app @ '' ['' @ source app @ '']'')"

definition category_header :: "string \<Rightarrow> string list" where
  "category_header category =
     [CHR 0x0A # category @ '':'', replicate (length category) CHR ''-'']"

text \<open>The body of the loop \<open>for category, apps in sorted(categorized_apps.items())\<close>.\<close>

definition print_category :: "string \<times> entry list \<Rightarrow> string list" where
  "print_category item =
     (case item of (category, apps) \<Rightarrow>
        if apps \<noteq> [] then
          (let filtered_apps = filter (\<lambda>app. source app \<noteq> ''Apple'') apps in
           if filtered_apps \<noteq> [] then
             category_header category @ map entry_line (sort_key name' filtered_apps)
           else [])
        else [])"

definition report_header :: "string list" where
  "report_header =
     [''Analyzing installed applications...'',
      CHR 0x0A # ''Third-Party Applications by Category:'',
      replicate 50 CHR ''='']"

text \<open>
  \<open>main\<close>, from the results of \<open>get_system_apps\<close> and \<open>get_installed_apps\<close> on: what it
  prints. The keys of the dict are distinct, so sorting its items sorts them by key.
  (A line logged by the fetcher falls between the first and the second string.)
\<close>

definition main :: "string set \<Rightarrow> string app_info list \<Rightarrow> string list" where
  "main system_apps installed_apps =
     report_header @
     concat (map print_category (sort_key fst (categorize system_apps installed_apps [])))"

text \<open>
  The blocks of the report: each category that is printed, with its entries in the order
  of their lines.
\<close>

definition report_blocks :: "string set \<Rightarrow> string app_info list \<Rightarrow> categorized" where
  "report_blocks system_apps installed_apps =
     filter (\<lambda>(category, apps). apps \<noteq> [])
       (map (\<lambda>(category, apps).
               (category, sort_key name' (filter (\<lambda>app. source app \<noteq> ''Apple'') apps)))
          (sort_key fst (categorize system_apps installed_apps [])))"

text \<open>
  The reporter without the render-time drop of the entries whose source is \<open>Apple\<close>;
  everything else as in \<open>print_category\<close> and \<open>main\<close>.
\<close>

definition print_category_no_drop :: "string \<times> entry list \<Rightarrow> string list" where
  "print_category_no_drop item =
     (case item of (category, apps) \<Rightarrow>
        if apps \<noteq> [] then
          category_header category @ map entry_line (sort_key name' apps)
        else [])"

definition main_no_drop :: "string set \<Rightarrow> string app_info list \<Rightarrow> string list" where
  "main_no_drop system_apps installed_apps =
     report_header @
     concat (map print_category_no_drop
               (sort_key fst (categorize system_apps installed_apps [])))"

section \<open>Notions used to state the properties of the report\<close>

text \<open>
  The condition under which the loop of \<open>main\<close> keeps a record, the entry it builds for
  it, and the category it files the entry under.
\<close>

definition reported :: "string set \<Rightarrow> string app_info \<Rightarrow> bool" where
  "reported system_apps app = (name app \<notin> system_apps \<and> should_include_app app)"

definition entry_of :: "string app_info \<Rightarrow> entry" where
  "entry_of app =
     \<lparr>name' = name app, version' = version app, source = format_source (obtained_from app)\<rparr>"

definition category_of :: "string app_info \<Rightarrow> string" where
  "category_of app = get_app_category (name app) (path app)"

text \<open>The strings printed for one block of the report.\<close>

definition block_lines :: "string \<times> entry list \<Rightarrow> string list" where
  "block_lines block = category_header (fst block) @ map entry_line (snd block)"

text \<open>The entries filed under a category, in the order of the inventory.\<close>

definition entries_for :: "string set \<Rightarrow> string app_info list \<Rightarrow> string \<Rightarrow> entry list" where
  "entries_for sys xs c = map entry_of (filter (\<lambda>a. reported sys a \<and> category_of a = c) xs)"

section \<open>Example records\<close>

text \<open>Records of an inventory, used to evaluate the program on concrete inputs.\<close>

definition obsidian :: "string app_info" where
  "obsidian = \<lparr>name = ''Obsidian'', path = ''/Applications/Obsidian.app'', version = ''1.2.0'',
     obtained_from = ''identified_developer'', last_modified = ''Unknown''\<rparr>"

definition keynote :: "string app_info" where
  "keynote = \<lparr>name = ''Keynote'', path = ''/Applications/Keynote.app'', version = ''12.0'',
     obtained_from = ''apple'', last_modified = ''Unknown''\<rparr>"

definition vubuntu :: "string app_info" where
  "vubuntu = \<lparr>name = ''vUbuntu 22.04'', path = ''/Applications/vUbuntu.app'',
     version = ''Unknown'', obtained_from = ''unknown'', last_modified = ''Unknown''\<rparr>"

definition tabby :: "string app_info" where
  "tabby = \<lparr>name = ''Tabby'', path = ''/Applications/Tabby.app'', version = ''1.0.207'',
     obtained_from = ''identified_developer'', last_modified = ''Unknown''\<rparr>"

definition onyx :: "string app_info" where
  "onyx = \<lparr>name = ''OnyX'', path = ''/Applications/OnyX.app'', version = ''4.5.1'',
     obtained_from = ''identified_developer'', last_modified = ''Unknown''\<rparr>"

definition steermouse :: "string app_info" where
  "steermouse = \<lparr>name = ''SteerMouse'', path = ''/Applications/SteerMouse.app'',
     version = ''Unknown'', obtained_from = ''Some Vendor'', last_modified = ''Unknown''\<rparr>"

definition tabby_from_apple :: "string app_info" where
  "tabby_from_apple = \<lparr>name = ''Tabby'', path = ''/Applications/Tabby.app'', version = ''1.0'',
     obtained_from = ''Apple'', last_modified = ''Unknown''\<rparr>"

section \<open>Errors\<close>

text \<open>A Python exception that the program can meet, with its message \<open>str(e)\<close>.\<close>

datatype error =
  AttributeError string
| TypeError string
| JSONDecodeError string
| NotADirectoryError string
| RunError string

fun message :: "error \<Rightarrow> string" where
  "message (AttributeError m) = m"
| "message (TypeError m) = m"
| "message (JSONDecodeError m) = m"
| "message (NotADirectoryError m) = m"
| "message (RunError m) = m"

definition quoted :: "string \<Rightarrow> string" where
  "quoted s = CHR 0x27 # s @ [CHR 0x27]"

section \<open>System-app enumerator: \<open>get_system_apps\<close>\<close>

text \<open>
  The file system as the enumerator sees it: a path does not exist (\<open>None\<close>), or it is a
  directory with the names \<open>os.listdir\<close> returns, or it is something else, on which
  \<open>os.listdir\<close> raises.
\<close>

datatype node = Dir "string list" | File

type_synonym filesystem = "string \<Rightarrow> node option"

definition system_paths :: "string list" where
  "system_paths = [''/System/Applications'', ''/System/Applications/Utilities'']"

text \<open>\<open>[f.replace(".app", "") for f in os.listdir(path) if f.endswith(".app")]\<close>\<close>

definition bundle_names :: "string list \<Rightarrow> string list" where
  "bundle_names listing =
     map (\<lambda>f. replace f ''.app'' []) (filter (\<lambda>f. endswith f ''.app'') listing)"

text \<open>The loop \<open>for path in system_paths\<close>, with the set \<open>system_apps\<close> as accumulator.\<close>

fun scan_system_paths :: "filesystem \<Rightarrow> string list \<Rightarrow> string set \<Rightarrow> error + string set" where
  "scan_system_paths fs [] system_apps = Inr system_apps"
| "scan_system_paths fs (p # ps) system_apps =
     (case fs p of
        None \<Rightarrow> scan_system_paths fs ps system_apps
      | Some File \<Rightarrow> Inl (NotADirectoryError (''[Errno 20] Not a directory: '' @ quoted p))
      | Some (Dir listing) \<Rightarrow>
          scan_system_paths fs ps (system_apps \<union> set (bundle_names listing)))"

definition get_system_apps :: "filesystem \<Rightarrow> error + string set" where
  "get_system_apps fs = scan_system_paths fs system_paths {}"

section \<open>Inventory fetcher: \<open>get_installed_apps\<close>\<close>

text \<open>
  A value returned by \<open>json.loads\<close>. An object is the list of the items of the parsed
  dict (its keys are distinct); a float is kept as its literal.
\<close>

datatype json =
  JNull
| JBool bool
| JInt int
| JFloat string
| JStr string
| JList "json list"
| JDict "(string \<times> json) list"

text \<open>The name of the Python type of a value, as it appears in error messages.\<close>

fun type_name :: "json \<Rightarrow> string" where
  "type_name JNull = ''NoneType''"
| "type_name (JBool b) = ''bool''"
| "type_name (JInt i) = ''int''"
| "type_name (JFloat f) = ''float''"
| "type_name (JStr s) = ''str''"
| "type_name (JList xs) = ''list''"
| "type_name (JDict d) = ''dict''"

text \<open>\<open>x.get(key, default)\<close>: an attribute error unless \<open>x\<close> is a dict.\<close>

fun get :: "json \<Rightarrow> string \<Rightarrow> json \<Rightarrow> error + json" where
  "get (JDict d) key dflt = Inr (case map_of d key of Some v \<Rightarrow> v | None \<Rightarrow> dflt)"
| "get x key dflt =
     Inl (AttributeError (quoted (type_name x) @ '' object has no attribute '' @ quoted ''get''))"

text \<open>
  What a \<open>for\<close> loop iterates over: the elements of a list, the keys of a dict, the
  characters of a string; a type error for any other value.
\<close>

fun iterate :: "json \<Rightarrow> error + json list" where
  "iterate (JList xs) = Inr xs"
| "iterate (JDict d) = Inr (map (\<lambda>kv. JStr (fst kv)) d)"
| "iterate (JStr s) = Inr (map (\<lambda>c. JStr [c]) s)"
| "iterate x = Inl (TypeError (quoted (type_name x) @ '' object is not iterable''))"

text \<open>Whether a value is a dict, the only values with a \<open>get\<close> method.\<close>

fun is_dict :: "json \<Rightarrow> bool" where
  "is_dict (JDict d) = True"
| "is_dict x = False"

text \<open>
  The record the fetcher is to build for one dict of the inventory: each of the five
  fields is the value under its key, or the string \<open>Unknown\<close> when the key is absent.
\<close>

definition field_of :: "(string \<times> json) list \<Rightarrow> string \<Rightarrow> json" where
  "field_of d key = (case map_of d key of Some v \<Rightarrow> v | None \<Rightarrow> JStr ''Unknown'')"

definition record_of :: "(string \<times> json) list \<Rightarrow> json app_info" where
  "record_of d =
     \<lparr>name = field_of d ''_name'', path = field_of d ''path'',
      version = field_of d ''version'', obtained_from = field_of d ''obtained_from'',
      last_modified = field_of d ''lastModified''\<rparr>"

text \<open>The dict \<open>app_info\<close> built for one element of the inventory.\<close>

definition make_app_info :: "json \<Rightarrow> error + json app_info" where
  "make_app_info app =
     (case get app ''_name'' (JStr ''Unknown'') of Inl e \<Rightarrow> Inl e | Inr n \<Rightarrow>
      case get app ''path'' (JStr ''Unknown'') of Inl e \<Rightarrow> Inl e | Inr p \<Rightarrow>
      case get app ''version'' (JStr ''Unknown'') of Inl e \<Rightarrow> Inl e | Inr v \<Rightarrow>
      case get app ''obtained_from'' (JStr ''Unknown'') of Inl e \<Rightarrow> Inl e | Inr obt \<Rightarrow>
      case get app ''lastModified'' (JStr ''Unknown'') of Inl e \<Rightarrow> Inl e | Inr m \<Rightarrow>
        Inr \<lparr>name = n, path = p, version = v, obtained_from = obt, last_modified = m\<rparr>)"

text \<open>The loop that fills \<open>apps_info\<close>; an exception ends it.\<close>

fun collect_apps :: "json list \<Rightarrow> json app_info list \<Rightarrow> error + json app_info list" where
  "collect_apps [] apps_info = Inr apps_info"
| "collect_apps (app # rest) apps_info =
     (case make_app_info app of
        Inl e \<Rightarrow> Inl e
      | Inr app_info \<Rightarrow> collect_apps rest (apps_info @ [app_info]))"

text \<open>
  What \<open>subprocess.run(cmd, capture_output=True, text=True)\<close> does: it raises (the
  command cannot be started, its output cannot be decoded), or it returns the exit status
  and the standard output of the command.
\<close>

datatype run_outcome = Raised string | Completed int string

text \<open>
  The body of the \<open>try\<close> block. \<open>loads\<close> stands for \<open>json.loads\<close>: the parsed value, or the
  message of the exception it raises.
\<close>

definition try_get_installed_apps ::
  "(string \<Rightarrow> string + json) \<Rightarrow> run_outcome \<Rightarrow> error + json app_info list" where
  "try_get_installed_apps loads outcome =
     (case outcome of
        Raised m \<Rightarrow> Inl (RunError m)
      | Completed returncode stdout \<Rightarrow>
          (case loads stdout of
             Inl m \<Rightarrow> Inl (JSONDecodeError m)
           | Inr data \<Rightarrow>
               (case get data ''SPApplicationsDataType'' (JList []) of
                  Inl e \<Rightarrow> Inl e
                | Inr apps \<Rightarrow>
                    (case iterate apps of
                       Inl e \<Rightarrow> Inl e
                     | Inr items \<Rightarrow> collect_apps items []))))"

text \<open>
  \<open>get_installed_apps\<close>: what it prints and what it returns. The \<open>except Exception\<close>
  clause prints one line and returns the empty list.
\<close>

definition get_installed_apps ::
  "(string \<Rightarrow> string + json) \<Rightarrow> run_outcome \<Rightarrow> string list \<times> json app_info list" where
  "get_installed_apps loads outcome =
     (case try_get_installed_apps loads outcome of
        Inr apps_info \<Rightarrow> ([], apps_info)
      | Inl e \<Rightarrow> ([''Error getting installed apps: '' @ message e], []))"

text \<open>
  Outputs of the inventory command and what \<open>json.loads\<close> makes of them: a well-formed
  inventory of one application; inventories whose list holds a number, or that have
  \<open>null\<close>, a string or an object where the list is expected; an object without the key;
  a list where the object is expected; and text that is not JSON.
\<close>

definition dq :: "string \<Rightarrow> string" where
  "dq s = CHR 0x22 # s @ [CHR 0x22]"

definition inventory_text :: string where
  "inventory_text =
     ''{'' @ dq ''SPApplicationsDataType'' @ '': [{'' @ dq ''_name'' @ '': '' @ dq ''Foo'' @ ''}]}''"

definition broken_text :: string where
  "broken_text =
     ''{'' @ dq ''SPApplicationsDataType'' @ '': [{'' @ dq ''_name'' @ '': '' @ dq ''Foo'' @ ''}, 3]}''"

definition null_text :: string where
  "null_text = ''{'' @ dq ''SPApplicationsDataType'' @ '': null}''"

definition string_text :: string where
  "string_text = ''{'' @ dq ''SPApplicationsDataType'' @ '': '' @ dq ''none'' @ ''}''"

definition nested_text :: string where
  "nested_text = ''{'' @ dq ''SPApplicationsDataType'' @ '': {'' @ dq ''a'' @ '': 1}}''"

definition inventory_loads :: "string \<Rightarrow> string + json" where
  "inventory_loads s =
     (if s = inventory_text
      then Inr (JDict [(''SPApplicationsDataType'', JList [JDict [(''_name'', JStr ''Foo'')]])])
      else if s = broken_text
      then Inr (JDict [(''SPApplicationsDataType'', JList [JDict [(''_name'', JStr ''Foo'')], JInt 3])])
      else if s = null_text then Inr (JDict [(''SPApplicationsDataType'', JNull)])
      else if s = string_text then Inr (JDict [(''SPApplicationsDataType'', JStr ''none'')])
      else if s = nested_text
      then Inr (JDict [(''SPApplicationsDataType'', JDict [(''a'', JInt 1)])])
      else if s = ''{}'' then Inr (JDict [])
      else if s = ''[]'' then Inr (JList [])
      else Inl ''Expecting value: line 1 column 1 (char 0)'')"

text \<open>A file system whose first system directory holds three entries.\<close>

definition bundle_fs :: filesystem where
  "bundle_fs p =
     (if p = ''/System/Applications'' then Some (Dir [''Mail.app'', ''Web.app Viewer.app'', ''notes.txt''])
      else None)"

section \<open>Facts about strings\<close>

lemma str_in_iff: "str_in sub s \<longleftrightarrow> (\<exists>pre post. s = pre @ sub @ post)"
proof (induction s)
  case Nil
  then show ?case by auto
next
  case (Cons c cs)
  show ?case
  proof
    assume "str_in sub (c # cs)"
    then consider "prefix sub (c # cs)" | "str_in sub cs" by auto
    then show "\<exists>pre post. c # cs = pre @ sub @ post"
    proof cases
      case 1
      then obtain post where "c # cs = sub @ post" by (auto simp: prefix_def)
      then have "c # cs = [] @ sub @ post" by simp
      then show ?thesis by blast
    next
      case 2
      with Cons.IH obtain pre post where "cs = pre @ sub @ post" by blast
      then have "c # cs = (c # pre) @ sub @ post" by simp
      then show ?thesis by blast
    qed
  next
    assume "\<exists>pre post. c # cs = pre @ sub @ post"
    then obtain pre post where eq: "c # cs = pre @ sub @ post" by blast
    show "str_in sub (c # cs)"
    proof (cases pre)
      case Nil
      with eq have "prefix sub (c # cs)" by (simp add: prefix_def)
      then show ?thesis by simp
    next
      case (Cons d pre')
      with eq have "cs = pre' @ sub @ post" by simp
      with Cons.IH have "str_in sub cs" by blast
      then show ?thesis by simp
    qed
  qed
qed

section \<open>Facts about the classifier\<close>

lemma any_keyword_iff:
  "any_keyword keywords s \<longleftrightarrow>
     (\<exists>keyword \<in> set keywords. \<exists>pre post. s = pre @ lower keyword @ post)"
  by (simp add: any_keyword_def list_ex_iff str_in_iff)

lemma keyword_scan_range:
  "keyword_scan table s \<in> insert ''Other'' (fst ` set table)"
  by (induction table s rule: keyword_scan.induct) auto

lemma keyword_scan_none:
  "\<forall>i < length table. \<not> any_keyword (snd (table ! i)) s \<Longrightarrow> keyword_scan table s = ''Other''"
proof (induction table s rule: keyword_scan.induct)
  case (1 s)
  then show ?case by simp
next
  case (2 category kws rest s)
  from "2.prems" have "\<not> any_keyword kws s" by force
  moreover have "\<forall>i < length rest. \<not> any_keyword (snd (rest ! i)) s"
  proof (intro allI impI)
    fix i assume "i < length rest"
    then have "Suc i < length ((category, kws) # rest)" by simp
    with "2.prems" have "\<not> any_keyword (snd (((category, kws) # rest) ! Suc i)) s" by blast
    then show "\<not> any_keyword (snd (rest ! i)) s" by simp
  qed
  ultimately show ?case using "2.IH" by simp
qed

lemma keyword_scan_first:
  "i < length table \<Longrightarrow> any_keyword (snd (table ! i)) s \<Longrightarrow>
   \<forall>m < i. \<not> any_keyword (snd (table ! m)) s \<Longrightarrow>
   keyword_scan table s = fst (table ! i)"
proof (induction table s arbitrary: i rule: keyword_scan.induct)
  case (1 s)
  then show ?case by simp
next
  case (2 category kws rest s)
  show ?case
  proof (cases i)
    case 0
    with "2.prems" show ?thesis by simp
  next
    case (Suc k)
    with "2.prems" have no_head: "\<not> any_keyword kws s" by force
    have "k < length rest" using "2.prems" Suc by simp
    moreover have "any_keyword (snd (rest ! k)) s" using "2.prems" Suc by simp
    moreover have "\<forall>m < k. \<not> any_keyword (snd (rest ! m)) s"
    proof (intro allI impI)
      fix m assume "m < k"
      then have "Suc m < i" using Suc by simp
      with "2.prems" have "\<not> any_keyword (snd (((category, kws) # rest) ! Suc m)) s" by blast
      then show "\<not> any_keyword (snd (rest ! m)) s" by simp
    qed
    ultimately have "keyword_scan rest s = fst (rest ! k)" using "2.IH" no_head by blast
    with no_head Suc show ?thesis by simp
  qed
qed

lemma first_match_exists:
  "i < length table \<Longrightarrow> any_keyword (snd (table ! i)) s \<Longrightarrow>
   \<exists>k \<le> i. any_keyword (snd (table ! k)) s \<and> (\<forall>m < k. \<not> any_keyword (snd (table ! m)) s)"
proof (induction i rule: less_induct)
  case (less i)
  show ?case
  proof (cases "\<forall>m < i. \<not> any_keyword (snd (table ! m)) s")
    case True
    with less.prems show ?thesis by blast
  next
    case False
    then obtain m where m: "m < i" "any_keyword (snd (table ! m)) s" by blast
    then have "m < length table" using less.prems by simp
    with less.IH m obtain k where "k \<le> m" "any_keyword (snd (table ! k)) s"
      "\<forall>m' < k. \<not> any_keyword (snd (table ! m')) s" by blast
    with m show ?thesis by (meson le_trans less_imp_le)
  qed
qed

lemma special_cases_distinct: "distinct (map fst special_cases)"
  by (simp add: special_cases_def)

lemma special_cases_values: "snd ` set special_cases \<subseteq> set category_names"
  by (simp add: special_cases_def category_names_def)

lemma categories_names: "map fst categories @ [''Other''] = category_names"
  by (simp add: categories_def category_names_def)

lemma categories_distinct: "distinct (map fst categories)"
  by (simp add: categories_def)

lemma length_categories: "length categories = 8"
  by (simp add: categories_def)


lemma get_app_category_override:
  "(app_name, category) \<in> set special_cases \<Longrightarrow> get_app_category app_name p = category"
  using special_cases_distinct by (simp add: get_app_category_def)

lemma map_of_special_cases_None:
  "app_name \<notin> fst ` set special_cases \<Longrightarrow> map_of special_cases app_name = None"
  by (simp add: map_of_eq_None_iff)

lemma get_app_category_ubuntu:
  "app_name \<notin> fst ` set special_cases \<Longrightarrow> str_in ''ubuntu'' (lower app_name) \<Longrightarrow>
   get_app_category app_name p = ''Virtualization''"
  by (simp add: get_app_category_def map_of_special_cases_None)

lemma get_app_category_scan:
  "app_name \<notin> fst ` set special_cases \<Longrightarrow> \<not> str_in ''ubuntu'' (lower app_name) \<Longrightarrow>
   get_app_category app_name p = keyword_scan categories (lower app_name)"
  by (simp add: get_app_category_def map_of_special_cases_None)

lemma get_app_category_range: "get_app_category app_name p \<in> set category_names"
proof (cases "map_of special_cases app_name")
  case None
  have "set category_names = set (map fst categories @ [''Other''])"
    by (simp only: categories_names)
  then have "set category_names = insert ''Other'' (fst ` set categories)"
    by simp
  then have "keyword_scan categories (lower app_name) \<in> set category_names"
    using keyword_scan_range [of categories "lower app_name"] by simp
  moreover have "''Virtualization'' \<in> set category_names"
    by (simp add: category_names_def)
  ultimately show ?thesis using None by (simp add: get_app_category_def)
next
  case (Some category)
  then have "(app_name, category) \<in> set special_cases" by (rule map_of_SomeD)
  then have "category \<in> snd ` set special_cases" by force
  with special_cases_values Some show ?thesis by (auto simp: get_app_category_def)
qed

lemma list_all_drop_nth:
  assumes "list_all P (drop n xs)" and "n \<le> m" and "m < length xs"
  shows "P (xs ! m)"
proof -
  from assms(1) have "\<forall>k < length (drop n xs). P (drop n xs ! k)"
    by (simp only: list_all_length)
  moreover have "m - n < length (drop n xs)"
    using assms(2,3) by simp
  ultimately have "P (drop n xs ! (m - n))"
    by blast
  moreover have "n \<le> length xs"
    using assms(2,3) by simp
  then have "drop n xs ! (m - n) = xs ! (n + (m - n))"
    by (rule nth_drop)
  ultimately show ?thesis
    using assms(2) by simp
qed

lemma all_less_length: "(\<forall>i < length xs. P (xs ! i)) \<longleftrightarrow> list_all P xs"
  by (simp add: list_all_length)

lemma keyword_scan_tie_break:
  assumes ij: "i < j" "j < length table"
    and mi: "any_keyword (snd (table ! i)) s"
    and dist: "distinct (map fst table)"
  shows "keyword_scan table s \<noteq> fst (table ! j) \<and>
     (\<exists>k \<le> i. keyword_scan table s = fst (table ! k) \<and> any_keyword (snd (table ! k)) s \<and>
        (\<forall>m < k. \<not> any_keyword (snd (table ! m)) s)) \<and>
     ((\<forall>m. m < length table \<and> any_keyword (snd (table ! m)) s \<longrightarrow> m = i \<or> m = j) \<longrightarrow>
        keyword_scan table s = fst (table ! i))"
proof -
  from ij have i: "i < length table" by simp
  from first_match_exists [OF i mi] obtain k where k: "k \<le> i"
    "any_keyword (snd (table ! k)) s" "\<forall>m < k. \<not> any_keyword (snd (table ! m)) s"
    by blast
  from k i have klen: "k < length table" by simp
  have scan: "keyword_scan table s = fst (table ! k)"
    using klen k(2) k(3) by (rule keyword_scan_first)
  have "k \<noteq> j" using k(1) ij(1) by simp
  moreover from dist have "\<forall>a < length (map fst table). \<forall>b < length (map fst table).
      a \<noteq> b \<longrightarrow> map fst table ! a \<noteq> map fst table ! b"
    by (simp only: distinct_conv_nth)
  ultimately have "fst (table ! k) \<noteq> fst (table ! j)"
    using klen ij(2) by simp
  then have ne: "keyword_scan table s \<noteq> fst (table ! j)"
    using scan by simp
  have only: "keyword_scan table s = fst (table ! i)"
    if "\<forall>m. m < length table \<and> any_keyword (snd (table ! m)) s \<longrightarrow> m = i \<or> m = j"
  proof -
    from that klen k(2) have "k = i \<or> k = j" by blast
    with \<open>k \<noteq> j\<close> scan show ?thesis by simp
  qed
  from ne scan k only show ?thesis by blast
qed

lemma any_keyword_member:
  "keyword \<in> set kws \<Longrightarrow> str_in (lower keyword) s \<Longrightarrow> any_keyword kws s"
  by (auto simp: any_keyword_def list_ex_iff)

lemma development_first: "categories ! 0 = (''Development'', snd (categories ! 0))"
  "''Code'' \<in> set (snd (categories ! 0))"
  by (simp_all add: categories_def)

section \<open>Facts about the filter and the reporter\<close>

lemma lower_Apple: "lower ''Apple'' = ''apple''"
  by (simp add: lower_char_def kelvin_sign_def capital_i_with_dot_def)

lemma format_source_Apple_iff: "format_source src = ''Apple'' \<longleftrightarrow> lower src = ''apple''"
proof
  assume r: "format_source src = ''Apple''"
  show "lower src = ''apple''"
  proof (cases "map_of source_map (lower src)")
    case None
    with r have "src = ''Apple''" by (simp add: format_source_def)
    then show ?thesis by (simp only: lower_Apple)
  next
    case (Some shown)
    with r have "shown = ''Apple''" by (simp add: format_source_def)
    with Some show ?thesis
      by (auto simp: source_map_def split: if_splits)
  qed
next
  assume "lower src = ''apple''"
  then show "format_source src = ''Apple''"
    by (simp add: format_source_def source_map_def)
qed

lemma should_include_app_not_apple:
  "should_include_app app \<Longrightarrow> lower (obtained_from app) \<noteq> ''apple''"
  by (auto simp: should_include_app_def split: if_splits)

lemma reported_source: "reported sys app \<Longrightarrow> source (entry_of app) \<noteq> ''Apple''"
  by (simp add: reported_def entry_of_def format_source_Apple_iff should_include_app_not_apple)

lemma categorize_step:
  "categorize sys (app # rest) acc =
     categorize sys rest
       (if reported sys app then append_to (category_of app) (entry_of app) acc else acc)"
  by (simp add: reported_def entry_of_def category_of_def Let_def)

lemma categorize_append:
  "categorize sys (xs @ ys) acc = categorize sys ys (categorize sys xs acc)"
proof (induction xs arbitrary: acc)
  case Nil
  then show ?case by simp
next
  case (Cons app rest)
  then show ?case
    by (simp only: categorize_step append.simps)
qed

lemma map_of_append_to:
  "map_of (append_to c e d) k =
     (if k = c then Some ((case map_of d c of Some es \<Rightarrow> es | None \<Rightarrow> []) @ [e])
      else map_of d k)"
  by (induction c e d rule: append_to.induct) auto

lemma keys_append_to: "fst ` set (append_to c e d) = insert c (fst ` set d)"
  by (induction c e d rule: append_to.induct) auto

lemma distinct_append_to:
  "distinct (map fst d) \<Longrightarrow> distinct (map fst (append_to c e d))"
proof (induction c e d rule: append_to.induct)
  case (1 category e)
  then show ?case by simp
next
  case (2 category e k es rest)
  then show ?case
    by (auto simp: keys_append_to)
qed

lemma distinct_categorize:
  "distinct (map fst acc) \<Longrightarrow> distinct (map fst (categorize sys xs acc))"
proof (induction xs arbitrary: acc)
  case Nil
  then show ?case by simp
next
  case (Cons app rest)
  let ?acc' = "if reported sys app then append_to (category_of app) (entry_of app) acc else acc"
  from Cons.prems have "distinct (map fst ?acc')"
    by (simp add: distinct_append_to)
  then have "distinct (map fst (categorize sys rest ?acc'))"
    by (rule Cons.IH)
  then show ?case
    by (simp only: categorize_step)
qed

lemma map_of_categorize:
  "map_of (categorize sys xs acc) c =
     (case map_of acc c of
        Some es \<Rightarrow> Some (es @ entries_for sys xs c)
      | None \<Rightarrow> if entries_for sys xs c = [] then None else Some (entries_for sys xs c))"
proof (induction xs arbitrary: acc)
  case Nil
  then show ?case by (simp add: entries_for_def split: option.splits)
next
  case (Cons app rest)
  show ?case
  proof (cases "reported sys app")
    case False
    then have "entries_for sys (app # rest) c = entries_for sys rest c"
      by (simp add: entries_for_def)
    with False Cons.IH [of acc] show ?thesis
      by (simp only: categorize_step if_False)
  next
    case True
    show ?thesis
    proof (cases "category_of app = c")
      case same: True
      have "entries_for sys (app # rest) c = entry_of app # entries_for sys rest c"
        using True same by (simp add: entries_for_def)
      moreover have "categorize sys (app # rest) acc =
          categorize sys rest (append_to (category_of app) (entry_of app) acc)"
        using True by (simp only: categorize_step if_True)
      ultimately show ?thesis
        using same Cons.IH [of "append_to (category_of app) (entry_of app) acc"]
        by (simp add: map_of_append_to del: categorize.simps split: option.splits)
    next
      case other: False
      have "entries_for sys (app # rest) c = entries_for sys rest c"
        using other by (simp add: entries_for_def)
      moreover have "categorize sys (app # rest) acc =
          categorize sys rest (append_to (category_of app) (entry_of app) acc)"
        using True by (simp only: categorize_step if_True)
      ultimately show ?thesis
        using other Cons.IH [of "append_to (category_of app) (entry_of app) acc"]
        by (simp add: map_of_append_to del: categorize.simps split: option.splits)
    qed
  qed
qed

lemma categorize_items:
  "(c, es) \<in> set (categorize sys xs []) \<longleftrightarrow> es = entries_for sys xs c \<and> es \<noteq> []"
proof -
  have "distinct (map fst (categorize sys xs []))"
    by (rule distinct_categorize) simp
  then have "(c, es) \<in> set (categorize sys xs []) \<longleftrightarrow> map_of (categorize sys xs []) c = Some es"
    by simp
  also have "\<dots> \<longleftrightarrow> es = entries_for sys xs c \<and> es \<noteq> []"
    by (auto simp: map_of_categorize)
  finally show ?thesis .
qed

lemma entries_for_set:
  "set (entries_for sys xs c) = entry_of ` {a \<in> set xs. reported sys a \<and> category_of a = c}"
  by (auto simp: entries_for_def)

lemma entries_for_not_Apple: "e \<in> set (entries_for sys xs c) \<Longrightarrow> source e \<noteq> ''Apple''"
  by (auto simp: entries_for_set reported_source)

lemma entries_for_keep: "filter (\<lambda>app. source app \<noteq> ''Apple'') (entries_for sys xs c) = entries_for sys xs c"
  by (simp add: entries_for_not_Apple)

lemma sort_key_Nil_iff: "sort_key f xs = [] \<longleftrightarrow> xs = []"
proof -
  have "length (sort_key f xs) = length xs" by (rule length_sort)
  then show ?thesis by (metis length_0_conv)
qed

lemma print_category_block:
  "print_category (c, apps) =
     (if filter (\<lambda>app. source app \<noteq> ''Apple'') apps = [] then []
      else block_lines (c, sort_key name' (filter (\<lambda>app. source app \<noteq> ''Apple'') apps)))"
  by (auto simp: print_category_def block_lines_def Let_def)

lemma concat_print_category:
  "concat (map print_category d) =
     concat (map block_lines
       (filter (\<lambda>(category, apps). apps \<noteq> [])
          (map (\<lambda>(category, apps).
                  (category, sort_key name' (filter (\<lambda>app. source app \<noteq> ''Apple'') apps))) d)))"
proof (induction d)
  case Nil
  then show ?case by simp
next
  case (Cons item d)
  obtain c apps where item: "item = (c, apps)" by (cases item)
  show ?case
    using Cons.IH by (simp add: item print_category_block sort_key_Nil_iff)
qed

lemma main_blocks:
  "main sys xs = report_header @ concat (map block_lines (report_blocks sys xs))"
  by (simp add: main_def report_blocks_def concat_print_category)

lemma distinct_map_sort_key:
  "distinct (map f (sort_key g xs)) = distinct (map f xs)"
  by (simp add: distinct_map)

lemma report_blocks_keys_sorted:
  "sorted (map fst (report_blocks sys xs)) \<and> distinct (map fst (report_blocks sys xs))"
proof -
  let ?d = "sort_key fst (categorize sys xs [])"
  let ?g = "\<lambda>(category, apps).
      (category, sort_key name' (filter (\<lambda>app. source app \<noteq> ''Apple'') apps))"
  have fst_g: "map fst (map ?g ?d) = map fst ?d"
    by (simp add: case_prod_unfold)
  have "distinct (map fst (categorize sys xs []))"
    by (rule distinct_categorize) simp
  then have d: "distinct (map fst ?d)"
    by (simp only: distinct_map_sort_key)
  have s: "sorted (map fst ?d)"
    by (rule sorted_sort_key)
  from s have "sorted (map fst (map ?g ?d))" by (simp only: fst_g)
  then have "sorted (map fst (filter (\<lambda>(category, apps). apps \<noteq> []) (map ?g ?d)))"
    by (rule sorted_filter)
  moreover from d have "distinct (map fst (map ?g ?d))" by (simp only: fst_g)
  then have "distinct (map fst (filter (\<lambda>(category, apps). apps \<noteq> []) (map ?g ?d)))"
    by (rule distinct_map_filter)
  ultimately show ?thesis
    by (simp only: report_blocks_def)
qed

lemma report_blocks_member:
  "(c, es) \<in> set (report_blocks sys xs) \<longleftrightarrow>
     es = sort_key name' (entries_for sys xs c) \<and> entries_for sys xs c \<noteq> []"
proof
  assume "(c, es) \<in> set (report_blocks sys xs)"
  then obtain apps where apps: "(c, apps) \<in> set (categorize sys xs [])"
    and es: "es = sort_key name' (filter (\<lambda>app. source app \<noteq> ''Apple'') apps)" "es \<noteq> []"
    by (auto simp: report_blocks_def)
  from apps have "apps = entries_for sys xs c" "apps \<noteq> []"
    by (auto simp: categorize_items)
  with es show "es = sort_key name' (entries_for sys xs c) \<and> entries_for sys xs c \<noteq> []"
    by (simp add: entries_for_keep)
next
  assume h: "es = sort_key name' (entries_for sys xs c) \<and> entries_for sys xs c \<noteq> []"
  then have "(c, entries_for sys xs c) \<in> set (categorize sys xs [])"
    by (simp add: categorize_items)
  moreover have "es = sort_key name' (filter (\<lambda>app. source app \<noteq> ''Apple'') (entries_for sys xs c))"
    using h by (simp add: entries_for_keep)
  moreover have "es \<noteq> []" using h by (simp add: sort_key_Nil_iff)
  ultimately show "(c, es) \<in> set (report_blocks sys xs)"
    by (force simp: report_blocks_def)
qed

lemma categorize_drop_record:
  "\<not> reported sys app \<Longrightarrow>
   categorize sys (pre @ app # post) acc = categorize sys (pre @ post) acc"
  by (simp add: categorize_append categorize_step del: categorize.simps)

lemma main_drop_record:
  "\<not> reported sys app \<Longrightarrow> main sys (pre @ app # post) = main sys (pre @ post)"
  by (simp add: main_def categorize_drop_record del: categorize.simps)

lemma print_category_no_drop_eq:
  assumes "\<forall>e \<in> set (snd item). source e \<noteq> ''Apple''"
  shows "print_category item = print_category_no_drop item"
proof -
  obtain c apps where item: "item = (c, apps)" by (cases item)
  with assms have "filter (\<lambda>app. source app \<noteq> ''Apple'') apps = apps" by simp
  then show ?thesis
    by (simp add: item print_category_def print_category_no_drop_def Let_def)
qed

lemma main_no_drop_eq: "main sys xs = main_no_drop sys xs"
proof -
  have "print_category item = print_category_no_drop item"
    if "item \<in> set (sort_key fst (categorize sys xs []))" for item
  proof -
    obtain c apps where item: "item = (c, apps)" by (cases item)
    with that have "(c, apps) \<in> set (categorize sys xs [])" by simp
    then have "apps = entries_for sys xs c" by (simp add: categorize_items)
    then have "\<forall>e \<in> set (snd item). source e \<noteq> ''Apple''"
      by (simp add: item entries_for_not_Apple)
    then show ?thesis by (rule print_category_no_drop_eq)
  qed
  then have "map print_category (sort_key fst (categorize sys xs [])) =
      map print_category_no_drop (sort_key fst (categorize sys xs []))"
    by (simp only: map_eq_conv) blast
  then show ?thesis
    by (simp only: main_def main_no_drop_def)
qed

lemma report_blocks_entries:
  assumes "block \<in> set (report_blocks sys xs)" and "e \<in> set (snd block)"
  shows "\<exists>a \<in> set xs. reported sys a \<and> category_of a = fst block \<and> e = entry_of a"
proof -
  obtain c es where block: "block = (c, es)" by (cases block)
  with assms(1) have "es = sort_key name' (entries_for sys xs c)"
    by (simp add: report_blocks_member)
  with assms(2) block have "e \<in> set (entries_for sys xs c)" by simp
  then show ?thesis by (auto simp: entries_for_set block)
qed

lemma entries_for_Nil_iff:
  "entries_for sys xs c \<noteq> [] \<longleftrightarrow> (\<exists>a \<in> set xs. reported sys a \<and> category_of a = c)"
  by (auto simp: entries_for_def filter_empty_conv)

section \<open>Facts about the fetcher and the enumerator\<close>

lemma get_not_dict:
  "\<not> is_dict x \<Longrightarrow>
   get x key dflt =
     Inl (AttributeError (quoted (type_name x) @ '' object has no attribute '' @ quoted ''get''))"
  by (cases x) simp_all

lemma get_installed_apps_cases:
  "(\<exists>line. get_installed_apps loads outcome = ([line], [])) \<or>
   fst (get_installed_apps loads outcome) = []"
  by (cases "try_get_installed_apps loads outcome") (simp_all add: get_installed_apps_def)

lemma main_Nil: "main sys [] = report_header"
  by (simp add: main_def)

lemma make_app_info_dict: "make_app_info (JDict d) = Inr (record_of d)"
  by (simp add: make_app_info_def record_of_def field_of_def)

lemma make_app_info_not_dict:
  "\<not> is_dict x \<Longrightarrow>
   make_app_info x =
     Inl (AttributeError (quoted (type_name x) @ '' object has no attribute '' @ quoted ''get''))"
  by (simp add: make_app_info_def get_not_dict)

lemma collect_apps_dicts:
  "collect_apps (map JDict ds) acc = Inr (acc @ map record_of ds)"
  by (induction ds arbitrary: acc) (simp_all add: make_app_info_dict)

lemma collect_apps_not_dict:
  "\<not> is_dict x \<Longrightarrow>
   collect_apps (map JDict ds @ x # rest) acc =
     Inl (AttributeError (quoted (type_name x) @ '' object has no attribute '' @ quoted ''get''))"
  by (induction ds arbitrary: acc) (simp_all add: make_app_info_dict make_app_info_not_dict)

lemma fetch_dict:
  "loads out = Inr (JDict d) \<Longrightarrow>
   get_installed_apps loads (Completed rc out) =
     (case iterate (case map_of d ''SPApplicationsDataType'' of Some v \<Rightarrow> v | None \<Rightarrow> JList []) of
        Inl e \<Rightarrow> ([''Error getting installed apps: '' @ message e], [])
      | Inr items \<Rightarrow>
          (case collect_apps items [] of
             Inl e \<Rightarrow> ([''Error getting installed apps: '' @ message e], [])
           | Inr apps \<Rightarrow> ([], apps)))"
  by (simp add: get_installed_apps_def try_get_installed_apps_def split: sum.splits)

lemma fetch_not_iterable:
  assumes "loads out = Inr (JDict d)" and "map_of d ''SPApplicationsDataType'' = Some x"
    and "x = JNull \<or> (\<exists>b. x = JBool b) \<or> (\<exists>i. x = JInt i) \<or> (\<exists>f. x = JFloat f)"
  shows "get_installed_apps loads (Completed rc out) =
     ([''Error getting installed apps: '' @ quoted (type_name x) @ '' object is not iterable''], [])"
  using assms(3) by (auto simp: fetch_dict [of loads out d rc, OF assms(1)] assms(2))

lemma fetch_element_not_dict:
  assumes "loads out = Inr (JDict d)"
    and "map_of d ''SPApplicationsDataType'' = Some (JList (map JDict ds @ x # rest))"
    and "\<not> is_dict x"
  shows "get_installed_apps loads (Completed rc out) =
     ([''Error getting installed apps: '' @ quoted (type_name x) @
         '' object has no attribute '' @ quoted ''get''], [])"
  by (simp add: fetch_dict [of loads out d rc, OF assms(1)] assms(2) collect_apps_not_dict [OF assms(3)])

lemma fetch_keys_or_characters:
  assumes "loads out = Inr (JDict d)" and "map_of d ''SPApplicationsDataType'' = Some x"
    and "(\<exists>e. x = JDict e \<and> e \<noteq> []) \<or> (\<exists>s. x = JStr s \<and> s \<noteq> [])"
  shows "get_installed_apps loads (Completed rc out) =
     ([''Error getting installed apps: '' @ quoted ''str'' @
         '' object has no attribute '' @ quoted ''get''], [])"
proof -
  from assms(3) obtain y ys where "iterate x = Inr (JStr y # ys)"
    by (cases x) (auto simp: neq_Nil_conv)
  moreover have "collect_apps (JStr y # ys) [] =
      Inl (AttributeError (quoted ''str'' @ '' object has no attribute '' @ quoted ''get''))"
    using collect_apps_not_dict [of "JStr y" "[]" ys "[]"] by simp
  ultimately show ?thesis
    by (simp add: fetch_dict [of loads out d rc, OF assms(1)] assms(2))
qed

lemma fetch_records:
  assumes "loads out = Inr (JDict d)"
    and "map_of d ''SPApplicationsDataType'' = Some (JList (map JDict ds))"
  shows "get_installed_apps loads (Completed rc out) = ([], map record_of ds)"
  by (simp add: fetch_dict [of loads out d rc, OF assms(1)] assms(2) collect_apps_dicts)

lemma fetch_nothing:
  assumes "loads out = Inr (JDict d)"
    and "map_of d ''SPApplicationsDataType'' = None \<or>
         map_of d ''SPApplicationsDataType'' = Some (JDict []) \<or>
         map_of d ''SPApplicationsDataType'' = Some (JStr [])"
  shows "get_installed_apps loads (Completed rc out) = ([], [])"
  using assms(2) by (auto simp: fetch_dict [of loads out d rc, OF assms(1)])

lemma sample_loads:
  "inventory_loads [] = Inl ''Expecting value: line 1 column 1 (char 0)''"
  "inventory_loads ''[]'' = Inr (JList [])"
  "inventory_loads null_text = Inr (JDict [(''SPApplicationsDataType'', JNull)])"
  "inventory_loads broken_text =
     Inr (JDict [(''SPApplicationsDataType'', JList [JDict [(''_name'', JStr ''Foo'')], JInt 3])])"
  "inventory_loads string_text = Inr (JDict [(''SPApplicationsDataType'', JStr ''none'')])"
  "inventory_loads inventory_text =
     Inr (JDict [(''SPApplicationsDataType'', JList [JDict [(''_name'', JStr ''Foo'')]])])"
  "inventory_loads ''{}'' = Inr (JDict [])"
  by (simp_all add: inventory_loads_def inventory_text_def broken_text_def null_text_def
      string_text_def nested_text_def dq_def)

lemma replace_from_skip_all:
  "replace_from (length xs) old new xs = []"
  by (induction xs) simp_all

lemma replace_from_no_occurrence:
  assumes "old \<noteq> []" and "\<not> str_in old (s @ butlast old)"
  shows "replace_from 0 old new (s @ old) = s @ new"
  using assms(2)
proof (induction s)
  case Nil
  obtain c cs where old: "old = c # cs" using assms(1) by (cases old) auto
  have "replace_from (length cs) old new cs = []" by (rule replace_from_skip_all)
  then show ?case by (simp add: old)
next
  case (Cons a s)
  from Cons.prems have no_prefix: "\<not> prefix old (a # s @ butlast old)"
    and rest: "\<not> str_in old (s @ butlast old)"
    by simp_all
  have "\<not> prefix old (a # s @ old)"
  proof
    assume "prefix old (a # s @ old)"
    then obtain zs where zs: "a # s @ old = old @ zs" by (auto simp: prefix_def)
    from arg_cong [OF zs, of length] have "length zs = Suc (length s)"
      by simp
    then have "zs \<noteq> []" by auto
    then have e2: "butlast zs @ [last zs] = zs" by simp
    have e1: "butlast old @ [last old] = old" using assms(1) by simp
    have "(a # s @ butlast old) @ [last old] = a # s @ old"
      using e1 by simp
    also have "\<dots> = old @ zs" by (rule zs)
    also have "\<dots> = (old @ butlast zs) @ [last zs]"
      using e2 by simp
    finally have "(a # s @ butlast old) @ [last old] = (old @ butlast zs) @ [last zs]" .
    then have "a # s @ butlast old = old @ butlast zs \<and> last old = last zs"
      by (simp only: append1_eq_conv)
    then have "prefix old (a # s @ butlast old)" by (simp add: prefix_def)
    with no_prefix show False by simp
  qed
  with Cons.IH [OF rest] show ?case by simp
qed

lemma replace_strips_suffix:
  "\<not> str_in ''.app'' (stem @ ''.ap'') \<Longrightarrow> replace (stem @ ''.app'') ''.app'' [] = stem"
  using replace_from_no_occurrence [of "''.app''" stem "[]"] by (simp add: replace_def)

lemma get_system_apps_result:
  "get_system_apps fs =
     (case fs ''/System/Applications'' of
        Some File \<Rightarrow>
          Inl (NotADirectoryError
                (''[Errno 20] Not a directory: '' @ quoted ''/System/Applications''))
      | other \<Rightarrow>
          (case fs ''/System/Applications/Utilities'' of
             Some File \<Rightarrow>
               Inl (NotADirectoryError
                     (''[Errno 20] Not a directory: '' @ quoted ''/System/Applications/Utilities''))
           | other' \<Rightarrow>
               Inr ((case other of Some (Dir listing) \<Rightarrow> set (bundle_names listing) | _ \<Rightarrow> {}) \<union>
                    (case other' of Some (Dir listing) \<Rightarrow> set (bundle_names listing) | _ \<Rightarrow> {}))))"
  by (simp add: get_system_apps_def system_paths_def split: option.splits node.splits)

section \<open>Lowercased text is read through ASCII tests only\<close>

text \<open>
  A substring test for an ASCII string, and an equality test with one, give the same
  answer on two strings with the same skeleton. The classifier, the source formatter and
  the inclusion filter use the lowercased text in such tests only, so each of them gives
  the same result with any string in place of the lowercased text that has its
  skeleton.
\<close>

lemma skeleton_not_ascii:
  "\<not> ascii c \<Longrightarrow> skeleton (c # cs) = skeleton cs \<or> skeleton (c # cs) = None # skeleton cs"
  by (simp split: list.splits option.splits)

lemma skeleton_not_ascii_head:
  "\<not> ascii c \<Longrightarrow> \<exists>rest. skeleton (c # cs) = None # rest"
  by (simp split: list.splits option.splits)

lemma skeleton_ascii: "\<forall>c \<in> set k. ascii c \<Longrightarrow> skeleton k = map Some k"
  by (induction k) simp_all

lemma prefix_skeleton:
  "\<forall>c \<in> set sub. ascii c \<Longrightarrow> prefix sub s \<longleftrightarrow> prefix (map Some sub) (skeleton s)"
proof (induction sub arbitrary: s)
  case Nil
  then show ?case by simp
next
  case (Cons a sub)
  show ?case
  proof (cases s)
    case Nil
    then show ?thesis by simp
  next
    case (Cons c cs)
    show ?thesis
    proof (cases "ascii c")
      case True
      with Cons.prems Cons.IH [of cs] show ?thesis by (simp add: Cons)
    next
      case False
      with Cons.prems have "a \<noteq> c" by auto
      moreover from False obtain rest where "skeleton (c # cs) = None # rest"
        using skeleton_not_ascii_head by blast
      ultimately show ?thesis by (simp add: Cons del: skeleton.simps)
    qed
  qed
qed

lemma str_in_skeleton:
  assumes "\<forall>c \<in> set sub. ascii c" and "sub \<noteq> []"
  shows "str_in sub s \<longleftrightarrow> sublist (map Some sub) (skeleton s)"
proof (induction s)
  case Nil
  from assms(2) show ?case by simp
next
  case (Cons c cs)
  show ?case
  proof (cases "ascii c")
    case True
    then have "skeleton (c # cs) = Some c # skeleton cs" by simp
    moreover have "prefix sub (c # cs) \<longleftrightarrow> prefix (map Some sub) (skeleton (c # cs))"
      using assms(1) by (rule prefix_skeleton)
    ultimately show ?thesis
      using Cons.IH by (simp add: sublist_Cons_right del: skeleton.simps)
  next
    case False
    obtain a sub' where sub: "sub = a # sub'" using assms(2) by (cases sub) auto
    with assms(1) False have "a \<noteq> c" by auto
    then have no_prefix: "\<not> prefix sub (c # cs)" by (simp add: sub)
    from skeleton_not_ascii [OF False, of cs] show ?thesis
    proof
      assume "skeleton (c # cs) = skeleton cs"
      with no_prefix Cons.IH show ?thesis by (simp del: skeleton.simps)
    next
      assume "skeleton (c # cs) = None # skeleton cs"
      with \<open>a \<noteq> c\<close> Cons.IH show ?thesis
        by (simp add: sublist_Cons_right sub del: skeleton.simps)
    qed
  qed
qed

lemma skeleton_all_Some:
  "skeleton s = map Some k \<Longrightarrow> s = k"
proof (induction s arbitrary: k)
  case Nil
  then show ?case by simp
next
  case (Cons c cs)
  show ?case
  proof (cases "ascii c")
    case True
    with Cons.prems obtain k' where "k = c # k'" "skeleton cs = map Some k'"
      by (cases k) auto
    with Cons.IH show ?thesis by simp
  next
    case False
    then obtain rest where "skeleton (c # cs) = None # rest"
      using skeleton_not_ascii_head by blast
    with Cons.prems show ?thesis by (cases k) (simp_all del: skeleton.simps)
  qed
qed

lemma ascii_tests_read_the_skeleton:
  assumes "skeleton s = skeleton t" and "\<forall>c \<in> set k. ascii c"
  shows "str_in k s = str_in k t" and "s = k \<longleftrightarrow> t = k"
proof -
  show "str_in k s = str_in k t"
  proof (cases "k = []")
    case True
    have "str_in [] u" for u by (cases u) simp_all
    with True show ?thesis by simp
  next
    case False
    with assms show ?thesis by (simp add: str_in_skeleton)
  qed
  have "u = k \<longleftrightarrow> skeleton u = map Some k" for u
    using assms(2) skeleton_ascii skeleton_all_Some by metis
  with assms(1) show "s = k \<longleftrightarrow> t = k" by simp
qed

lemma categories_ascii:
  "list_all (\<lambda>item. list_all (\<lambda>keyword. list_all ascii (lower keyword)) (snd item)) categories"
  by code_simp

lemma ubuntu_ascii: "list_all ascii ''ubuntu''"
  by code_simp

lemma source_map_ascii: "list_all (\<lambda>item. list_all ascii (fst item)) source_map"
  by code_simp

lemma apple_ascii: "list_all ascii ''apple''"
  by code_simp

lemma any_keyword_skeleton:
  assumes "skeleton u = skeleton t"
    and "list_all (\<lambda>keyword. list_all ascii (lower keyword)) kws"
  shows "any_keyword kws u = any_keyword kws t"
proof -
  have "str_in (lower keyword) u = str_in (lower keyword) t" if "keyword \<in> set kws" for keyword
  proof -
    from that assms(2) have "\<forall>c \<in> set (lower keyword). ascii c"
      by (simp add: list_all_iff)
    with assms(1) show ?thesis by (rule ascii_tests_read_the_skeleton(1))
  qed
  then show ?thesis by (simp add: any_keyword_def list_ex_iff)
qed

lemma keyword_scan_skeleton:
  assumes "skeleton u = skeleton t"
  shows "list_all (\<lambda>item. list_all (\<lambda>keyword. list_all ascii (lower keyword)) (snd item)) table \<Longrightarrow>
    keyword_scan table u = keyword_scan table t"
proof (induction table)
  case Nil
  then show ?case by simp
next
  case (Cons item table)
  obtain category kws where item: "item = (category, kws)" by (cases item)
  with Cons.prems have "list_all (\<lambda>keyword. list_all ascii (lower keyword)) kws"
    by simp
  with assms have "any_keyword kws u = any_keyword kws t"
    by (rule any_keyword_skeleton)
  moreover from Cons have "keyword_scan table u = keyword_scan table t"
    by simp
  ultimately show ?case by (simp add: item)
qed

lemma get_app_category_reads_skeleton:
  assumes "skeleton u = skeleton (lower app_name)"
  shows "get_app_category app_name p =
     (case map_of special_cases app_name of
        Some category \<Rightarrow> category
      | None \<Rightarrow>
          if str_in ''ubuntu'' u then ''Virtualization'' else keyword_scan categories u)"
proof -
  have "\<forall>c \<in> set ''ubuntu''. ascii c"
    using ubuntu_ascii by (simp only: list_all_iff)
  with assms have "str_in ''ubuntu'' u = str_in ''ubuntu'' (lower app_name)"
    by (rule ascii_tests_read_the_skeleton(1))
  moreover have "keyword_scan categories u = keyword_scan categories (lower app_name)"
    using assms categories_ascii by (rule keyword_scan_skeleton)
  ultimately show ?thesis by (simp only: get_app_category_def)
qed

lemma map_of_skeleton:
  assumes "skeleton u = skeleton t"
  shows "list_all (\<lambda>item. list_all ascii (fst item)) table \<Longrightarrow> map_of table u = map_of table t"
proof (induction table)
  case Nil
  then show ?case by simp
next
  case (Cons item table)
  obtain k v where item: "item = (k, v)" by (cases item)
  with Cons.prems have "\<forall>c \<in> set k. ascii c" by (simp add: list_all_iff)
  with assms have "u = k \<longleftrightarrow> t = k" by (rule ascii_tests_read_the_skeleton(2))
  moreover from Cons have "map_of table u = map_of table t" by simp
  ultimately show ?case by (auto simp: item)
qed

lemma format_source_reads_skeleton:
  assumes "skeleton u = skeleton (lower src)"
  shows "format_source src = (case map_of source_map u of Some shown \<Rightarrow> shown | None \<Rightarrow> src)"
proof -
  have "map_of source_map u = map_of source_map (lower src)"
    using assms source_map_ascii by (rule map_of_skeleton)
  then show ?thesis by (simp add: format_source_def)
qed

lemma should_include_app_reads_skeleton:
  assumes "skeleton u = skeleton (lower (obtained_from app))"
  shows "should_include_app app =
     (if name app \<in> set excluded_apps then False
      else if u = ''apple'' then False
      else if list_ex (\<lambda>pre. startswith (path app) pre) system_prefixes then False
      else True)"
proof -
  have "\<forall>c \<in> set ''apple''. ascii c"
    using apple_ascii by (simp only: list_all_iff)
  with assms have "u = ''apple'' \<longleftrightarrow> lower (obtained_from app) = ''apple''"
    by (rule ascii_tests_read_the_skeleton(2))
  then show ?thesis by (simp add: should_include_app_def)
qed

section \<open>The classifier is total and resolves in a fixed order\<close>

text \<open>
  C1: the classifier is a total deterministic function: \<open>get_app_category\<close> is a function
  of the name and the path with no failing branch, and for every input its value is one
  of the nine fixed category names. It resolves in order: a name that is a key of the
  override table gets the table's category, whatever the keyword rules would say (so
  \<open>Obsidian\<close> is \<open>Productivity\<close>); any other name whose lowercased form contains
  \<open>ubuntu\<close> is \<open>Virtualization\<close>; any other name gets the first category of the keyword
  table, in table order, one of whose lowercased keywords occurs in the lowercased name;
  and \<open>Other\<close> when no category matches.
\<close>

theorem get_app_category_resolution:
  "get_app_category app_name p \<in> set category_names \<and>
   (\<forall>category. (app_name, category) \<in> set special_cases \<longrightarrow>
        get_app_category app_name p = category) \<and>
   (app_name \<notin> fst ` set special_cases \<and> str_in ''ubuntu'' (lower app_name) \<longrightarrow>
        get_app_category app_name p = ''Virtualization'') \<and>
   (app_name \<notin> fst ` set special_cases \<and> \<not> str_in ''ubuntu'' (lower app_name) \<longrightarrow>
        (\<forall>i < length categories.
            any_keyword (snd (categories ! i)) (lower app_name) \<and>
            (\<forall>m < i. \<not> any_keyword (snd (categories ! m)) (lower app_name)) \<longrightarrow>
            get_app_category app_name p = fst (categories ! i)) \<and>
        ((\<forall>i < length categories. \<not> any_keyword (snd (categories ! i)) (lower app_name)) \<longrightarrow>
            get_app_category app_name p = ''Other'')) \<and>
   get_app_category ''Obsidian'' p = ''Productivity''"
proof (intro conjI allI impI)
  show "get_app_category app_name p \<in> set category_names"
    by (rule get_app_category_range)
next
  fix category assume "(app_name, category) \<in> set special_cases"
  then show "get_app_category app_name p = category" by (rule get_app_category_override)
next
  assume "app_name \<notin> fst ` set special_cases \<and> str_in ''ubuntu'' (lower app_name)"
  then show "get_app_category app_name p = ''Virtualization''"
    by (simp add: get_app_category_ubuntu)
next
  fix i
  assume scan: "app_name \<notin> fst ` set special_cases \<and> \<not> str_in ''ubuntu'' (lower app_name)"
    and i: "i < length categories"
    and first: "any_keyword (snd (categories ! i)) (lower app_name) \<and>
      (\<forall>m < i. \<not> any_keyword (snd (categories ! m)) (lower app_name))"
  from i first have "keyword_scan categories (lower app_name) = fst (categories ! i)"
    by (simp add: keyword_scan_first)
  with scan show "get_app_category app_name p = fst (categories ! i)"
    by (simp add: get_app_category_scan)
next
  assume scan: "app_name \<notin> fst ` set special_cases \<and> \<not> str_in ''ubuntu'' (lower app_name)"
    and none: "\<forall>i < length categories. \<not> any_keyword (snd (categories ! i)) (lower app_name)"
  from none have "keyword_scan categories (lower app_name) = ''Other''"
    by (rule keyword_scan_none)
  with scan show "get_app_category app_name p = ''Other''"
    by (simp add: get_app_category_scan)
next
  have "(''Obsidian'', ''Productivity'') \<in> set special_cases"
    by (simp add: special_cases_def)
  then show "get_app_category ''Obsidian'' p = ''Productivity''"
    by (rule get_app_category_override)
qed

theorem get_app_category_resolution_witness:
  "get_app_category ''Obsidian'' ''/Applications/Obsidian.app'' \<in> set category_names \<and>
   ((''Obsidian'', ''Productivity'') \<in> set special_cases \<and>
    get_app_category ''Obsidian'' ''/Applications/Obsidian.app'' = ''Productivity'') \<and>
   (''vUbuntu 22.04'' \<notin> fst ` set special_cases \<and>
    str_in ''ubuntu'' (lower ''vUbuntu 22.04'') \<and>
    get_app_category ''vUbuntu 22.04'' ''/Applications/vUbuntu.app'' = ''Virtualization'') \<and>
   (''Firefox'' \<notin> fst ` set special_cases \<and>
    \<not> str_in ''ubuntu'' (lower ''Firefox'') \<and>
    1 < length categories \<and>
    any_keyword (snd (categories ! 1)) (lower ''Firefox'') \<and>
    \<not> any_keyword (snd (categories ! 0)) (lower ''Firefox'') \<and>
    get_app_category ''Firefox'' ''/Applications/Firefox.app'' = fst (categories ! 1)) \<and>
   (''Slack'' \<notin> fst ` set special_cases \<and>
    \<not> str_in ''ubuntu'' (lower ''Slack'') \<and>
    list_all (\<lambda>item. \<not> any_keyword (snd item) (lower ''Slack'')) categories \<and>
    get_app_category ''Slack'' ''/Applications/Slack.app'' = ''Other'') \<and>
   (''Doc'' @ kelvin_sign @ ''er'' \<notin> fst ` set special_cases \<and>
    \<not> str_in ''ubuntu'' (lower (''Doc'' @ kelvin_sign @ ''er'')) \<and>
    0 < length categories \<and>
    any_keyword (snd (categories ! 0)) (lower (''Doc'' @ kelvin_sign @ ''er'')) \<and>
    get_app_category (''Doc'' @ kelvin_sign @ ''er'') ''/Applications/Docker.app'' =
      fst (categories ! 0))"
proof -
  have override: "(''Obsidian'', ''Productivity'') \<in> set special_cases"
    by (simp add: special_cases_def)
  have no_override:
    "''vUbuntu 22.04'' \<notin> fst ` set special_cases"
    "''Firefox'' \<notin> fst ` set special_cases"
    "''Slack'' \<notin> fst ` set special_cases"
    by (simp_all add: special_cases_def)
  have ubuntu:
    "str_in ''ubuntu'' (lower ''vUbuntu 22.04'')"
    "\<not> str_in ''ubuntu'' (lower ''Firefox'')"
    "\<not> str_in ''ubuntu'' (lower ''Slack'')"
    by code_simp+
  have len: "1 < length categories"
    by (simp add: length_categories)
  have hit: "any_keyword (snd (categories ! 1)) (lower ''Firefox'')"
    by code_simp
  have miss0: "\<not> any_keyword (snd (categories ! 0)) (lower ''Firefox'')"
    by code_simp
  then have miss: "\<forall>m < 1. \<not> any_keyword (snd (categories ! m)) (lower ''Firefox'')"
    by simp
  have none_all: "list_all (\<lambda>item. \<not> any_keyword (snd item) (lower ''Slack'')) categories"
    by code_simp
  then have none: "\<forall>i < length categories. \<not> any_keyword (snd (categories ! i)) (lower ''Slack'')"
    by (simp add: list_all_length)
  note r1 = get_app_category_resolution [of "''Obsidian''" "''/Applications/Obsidian.app''"]
  note r2 = get_app_category_resolution [of "''vUbuntu 22.04''" "''/Applications/vUbuntu.app''"]
  note r3 = get_app_category_resolution [of "''Firefox''" "''/Applications/Firefox.app''"]
  note r4 = get_app_category_resolution [of "''Slack''" "''/Applications/Slack.app''"]
  from r1 override have c1: "get_app_category ''Obsidian'' ''/Applications/Obsidian.app'' \<in> set category_names"
    and c2: "get_app_category ''Obsidian'' ''/Applications/Obsidian.app'' = ''Productivity''"
    by blast+
  from r2 no_override(1) ubuntu(1)
  have c3: "get_app_category ''vUbuntu 22.04'' ''/Applications/vUbuntu.app'' = ''Virtualization''"
    by blast
  from r3 no_override(2) ubuntu(2) len hit miss
  have c4: "get_app_category ''Firefox'' ''/Applications/Firefox.app'' = fst (categories ! 1)"
    by blast
  from r4 no_override(3) ubuntu(3) none
  have c5: "get_app_category ''Slack'' ''/Applications/Slack.app'' = ''Other''"
    by blast
  have k_override: "''Doc'' @ kelvin_sign @ ''er'' \<notin> fst ` set special_cases"
    by (simp add: special_cases_def kelvin_sign_def)
  have k_ubuntu: "\<not> str_in ''ubuntu'' (lower (''Doc'' @ kelvin_sign @ ''er''))"
    by code_simp
  have k_len: "0 < length categories"
    by (simp add: length_categories)
  have k_hit: "any_keyword (snd (categories ! 0)) (lower (''Doc'' @ kelvin_sign @ ''er''))"
    by code_simp
  have k_miss: "\<forall>m < 0. \<not> any_keyword (snd (categories ! m)) (lower (''Doc'' @ kelvin_sign @ ''er''))"
    by simp
  note r5 = get_app_category_resolution
    [of "''Doc'' @ kelvin_sign @ ''er''" "''/Applications/Docker.app''"]
  from r5 k_override k_ubuntu k_len k_hit k_miss
  have c6: "get_app_category (''Doc'' @ kelvin_sign @ ''er'') ''/Applications/Docker.app'' =
      fst (categories ! 0)"
    by blast
  from c1 c2 c3 c4 c5 override no_override ubuntu len hit miss0 none_all
    k_override k_ubuntu k_len k_hit c6
  show ?thesis
    by blast
qed

section \<open>Table order is the tie-break of the keyword scan\<close>

text \<open>
  C2, as the code has it: the keyword table lists the categories in the order
  Development, Browsers & Internet, Security & Privacy, Productivity, Utilities,
  Media & Creative, Cloud Storage, Virtualization, and table order is the tie-break for
  the names that reach the keyword scan, that is the names that are no key of the
  override table and whose lowercased form does not contain \<open>ubuntu\<close>. For such a name
  the classifier returns the result of the scan; when the lowercased name contains
  lowercased keywords of two different categories, at the positions \<open>i < j\<close> of the
  table, the classifier returns the first category of the table that has a keyword in
  the name: never the later of the two, a category at or before position \<open>i\<close>, and the
  earlier of the two when no other category matches. In particular such a name that
  contains both \<open>Code\<close> and \<open>Browser\<close>, in any case, is classified as \<open>Development\<close>.
\<close>

theorem keyword_table_order_tie_break:
  "map fst categories =
     [''Development'', ''Browsers & Internet'', ''Security & Privacy'', ''Productivity'',
      ''Utilities'', ''Media & Creative'', ''Cloud Storage'', ''Virtualization''] \<and>
   (app_name \<notin> fst ` set special_cases \<and> \<not> str_in ''ubuntu'' (lower app_name) \<longrightarrow>
      get_app_category app_name p = keyword_scan categories (lower app_name) \<and>
      (\<forall>i j. i < j \<and> j < length categories \<and>
          any_keyword (snd (categories ! i)) (lower app_name) \<and>
          any_keyword (snd (categories ! j)) (lower app_name) \<longrightarrow>
          get_app_category app_name p \<noteq> fst (categories ! j) \<and>
          (\<exists>k \<le> i. get_app_category app_name p = fst (categories ! k) \<and>
             any_keyword (snd (categories ! k)) (lower app_name) \<and>
             (\<forall>m < k. \<not> any_keyword (snd (categories ! m)) (lower app_name))) \<and>
          ((\<forall>m. m < length categories \<and>
                any_keyword (snd (categories ! m)) (lower app_name) \<longrightarrow> m = i \<or> m = j) \<longrightarrow>
             get_app_category app_name p = fst (categories ! i)))) \<and>
   (app_name \<notin> fst ` set special_cases \<and> \<not> str_in ''ubuntu'' (lower app_name) \<and>
    str_in (lower ''Code'') (lower app_name) \<and> str_in (lower ''Browser'') (lower app_name) \<longrightarrow>
       get_app_category app_name p = ''Development'')"
proof -
  have order: "map fst categories =
     [''Development'', ''Browsers & Internet'', ''Security & Privacy'', ''Productivity'',
      ''Utilities'', ''Media & Creative'', ''Cloud Storage'', ''Virtualization'']"
    by (simp add: categories_def)
  have tie: "\<forall>i j. i < j \<and> j < length categories \<and>
       any_keyword (snd (categories ! i)) (lower app_name) \<and>
       any_keyword (snd (categories ! j)) (lower app_name) \<longrightarrow>
       keyword_scan categories (lower app_name) \<noteq> fst (categories ! j) \<and>
       (\<exists>k \<le> i. keyword_scan categories (lower app_name) = fst (categories ! k) \<and>
          any_keyword (snd (categories ! k)) (lower app_name) \<and>
          (\<forall>m < k. \<not> any_keyword (snd (categories ! m)) (lower app_name))) \<and>
       ((\<forall>m. m < length categories \<and> any_keyword (snd (categories ! m)) (lower app_name) \<longrightarrow>
             m = i \<or> m = j) \<longrightarrow>
          keyword_scan categories (lower app_name) = fst (categories ! i))"
  proof (intro allI, rule impI)
    fix i j
    assume h: "i < j \<and> j < length categories \<and>
       any_keyword (snd (categories ! i)) (lower app_name) \<and>
       any_keyword (snd (categories ! j)) (lower app_name)"
    then have "i < j" "j < length categories"
      "any_keyword (snd (categories ! i)) (lower app_name)"
      by simp_all
    then show "keyword_scan categories (lower app_name) \<noteq> fst (categories ! j) \<and>
       (\<exists>k \<le> i. keyword_scan categories (lower app_name) = fst (categories ! k) \<and>
          any_keyword (snd (categories ! k)) (lower app_name) \<and>
          (\<forall>m < k. \<not> any_keyword (snd (categories ! m)) (lower app_name))) \<and>
       ((\<forall>m. m < length categories \<and> any_keyword (snd (categories ! m)) (lower app_name) \<longrightarrow>
             m = i \<or> m = j) \<longrightarrow>
          keyword_scan categories (lower app_name) = fst (categories ! i))"
      using categories_distinct by (rule keyword_scan_tie_break)
  qed
  have reach: "app_name \<notin> fst ` set special_cases \<and> \<not> str_in ''ubuntu'' (lower app_name) \<longrightarrow>
       get_app_category app_name p = keyword_scan categories (lower app_name)"
    by (simp add: get_app_category_scan)
  have example: "app_name \<notin> fst ` set special_cases \<and> \<not> str_in ''ubuntu'' (lower app_name) \<and>
      str_in (lower ''Code'') (lower app_name) \<and> str_in (lower ''Browser'') (lower app_name) \<longrightarrow>
       get_app_category app_name p = ''Development''"
  proof
    assume h: "app_name \<notin> fst ` set special_cases \<and> \<not> str_in ''ubuntu'' (lower app_name) \<and>
      str_in (lower ''Code'') (lower app_name) \<and> str_in (lower ''Browser'') (lower app_name)"
    then have "any_keyword (snd (categories ! 0)) (lower app_name)"
      using development_first(2) by (simp add: any_keyword_member)
    moreover have "0 < length categories" by (simp add: length_categories)
    ultimately have "keyword_scan categories (lower app_name) = fst (categories ! 0)"
      by (simp add: keyword_scan_first)
    also have "\<dots> = ''Development''" by (simp add: categories_def)
    finally show "get_app_category app_name p = ''Development''"
      using h by (simp add: get_app_category_scan)
  qed
  have scoped: "app_name \<notin> fst ` set special_cases \<and> \<not> str_in ''ubuntu'' (lower app_name) \<longrightarrow>
      get_app_category app_name p = keyword_scan categories (lower app_name) \<and>
      (\<forall>i j. i < j \<and> j < length categories \<and>
          any_keyword (snd (categories ! i)) (lower app_name) \<and>
          any_keyword (snd (categories ! j)) (lower app_name) \<longrightarrow>
          get_app_category app_name p \<noteq> fst (categories ! j) \<and>
          (\<exists>k \<le> i. get_app_category app_name p = fst (categories ! k) \<and>
             any_keyword (snd (categories ! k)) (lower app_name) \<and>
             (\<forall>m < k. \<not> any_keyword (snd (categories ! m)) (lower app_name))) \<and>
          ((\<forall>m. m < length categories \<and>
                any_keyword (snd (categories ! m)) (lower app_name) \<longrightarrow> m = i \<or> m = j) \<longrightarrow>
             get_app_category app_name p = fst (categories ! i)))"
  proof
    assume "app_name \<notin> fst ` set special_cases \<and> \<not> str_in ''ubuntu'' (lower app_name)"
    with reach have eq: "get_app_category app_name p = keyword_scan categories (lower app_name)"
      by blast
    show "get_app_category app_name p = keyword_scan categories (lower app_name) \<and>
      (\<forall>i j. i < j \<and> j < length categories \<and>
          any_keyword (snd (categories ! i)) (lower app_name) \<and>
          any_keyword (snd (categories ! j)) (lower app_name) \<longrightarrow>
          get_app_category app_name p \<noteq> fst (categories ! j) \<and>
          (\<exists>k \<le> i. get_app_category app_name p = fst (categories ! k) \<and>
             any_keyword (snd (categories ! k)) (lower app_name) \<and>
             (\<forall>m < k. \<not> any_keyword (snd (categories ! m)) (lower app_name))) \<and>
          ((\<forall>m. m < length categories \<and>
                any_keyword (snd (categories ! m)) (lower app_name) \<longrightarrow> m = i \<or> m = j) \<longrightarrow>
             get_app_category app_name p = fst (categories ! i)))"
      unfolding eq by (rule conjI [OF refl tie])
  qed
  show ?thesis
    by (rule conjI [OF order conjI [OF scoped example]])
qed

theorem keyword_table_order_tie_break_witness:
  "''Code Browser'' \<notin> fst ` set special_cases \<and>
   \<not> str_in ''ubuntu'' (lower ''Code Browser'') \<and>
   (0::nat) < 1 \<and> 1 < length categories \<and>
   any_keyword (snd (categories ! 0)) (lower ''Code Browser'') \<and>
   any_keyword (snd (categories ! 1)) (lower ''Code Browser'') \<and>
   list_all (\<lambda>item. \<not> any_keyword (snd item) (lower ''Code Browser'')) (drop 2 categories) \<and>
   str_in (lower ''Code'') (lower ''Code Browser'') \<and>
   str_in (lower ''Browser'') (lower ''Code Browser'') \<and>
   get_app_category ''Code Browser'' ''/Applications/Code Browser.app'' = fst (categories ! 0) \<and>
   get_app_category ''Code Browser'' ''/Applications/Code Browser.app'' \<noteq> fst (categories ! 1) \<and>
   get_app_category ''Code Browser'' ''/Applications/Code Browser.app'' =
     keyword_scan categories (lower ''Code Browser'') \<and>
   get_app_category ''Code Browser'' ''/Applications/Code Browser.app'' = ''Development''"
proof -
  have no_override: "''Code Browser'' \<notin> fst ` set special_cases"
    by (simp add: special_cases_def)
  have no_ubuntu: "\<not> str_in ''ubuntu'' (lower ''Code Browser'')"
    by code_simp
  have len: "1 < length categories"
    by (simp add: length_categories)
  have m0: "any_keyword (snd (categories ! 0)) (lower ''Code Browser'')"
    by code_simp
  have m1: "any_keyword (snd (categories ! 1)) (lower ''Code Browser'')"
    by code_simp
  have rest: "list_all (\<lambda>item. \<not> any_keyword (snd item) (lower ''Code Browser''))
      (drop 2 categories)"
    by code_simp
  have only: "\<forall>m. m < length categories \<and>
      any_keyword (snd (categories ! m)) (lower ''Code Browser'') \<longrightarrow> m = 0 \<or> m = 1"
  proof (intro allI impI)
    fix m
    assume m: "m < length categories \<and>
      any_keyword (snd (categories ! m)) (lower ''Code Browser'')"
    show "m = 0 \<or> m = 1"
    proof (rule ccontr)
      assume "\<not> (m = 0 \<or> m = 1)"
      then have "2 \<le> m" by simp
      moreover from m have "m < length categories" by simp
      ultimately
      have "\<not> any_keyword (snd (categories ! m)) (lower ''Code Browser'')"
        using rest by (rule list_all_drop_nth [rotated])
      with m show False by simp
    qed
  qed
  have code: "str_in (lower ''Code'') (lower ''Code Browser'')"
    by code_simp
  have browser: "str_in (lower ''Browser'') (lower ''Code Browser'')"
    by code_simp
  note tie =
    keyword_table_order_tie_break [of "''Code Browser''" "''/Applications/Code Browser.app''"]
  from tie no_override no_ubuntu
  have c3: "get_app_category ''Code Browser'' ''/Applications/Code Browser.app'' =
      keyword_scan categories (lower ''Code Browser'')"
    by blast
  from tie no_override no_ubuntu
  have "0 < (1::nat) \<and> 1 < length categories \<and>
       any_keyword (snd (categories ! 0)) (lower ''Code Browser'') \<and>
       any_keyword (snd (categories ! 1)) (lower ''Code Browser'') \<longrightarrow>
       get_app_category ''Code Browser'' ''/Applications/Code Browser.app'' \<noteq>
         fst (categories ! 1) \<and>
       (\<exists>k \<le> 0. get_app_category ''Code Browser'' ''/Applications/Code Browser.app'' =
            fst (categories ! k) \<and>
          any_keyword (snd (categories ! k)) (lower ''Code Browser'') \<and>
          (\<forall>m < k. \<not> any_keyword (snd (categories ! m)) (lower ''Code Browser''))) \<and>
       ((\<forall>m. m < length categories \<and>
             any_keyword (snd (categories ! m)) (lower ''Code Browser'') \<longrightarrow>
             m = 0 \<or> m = 1) \<longrightarrow>
          get_app_category ''Code Browser'' ''/Applications/Code Browser.app'' =
            fst (categories ! 0))"
    by blast
  moreover have "0 < (1::nat)"
    by simp
  ultimately
  have c1: "get_app_category ''Code Browser'' ''/Applications/Code Browser.app'' \<noteq>
      fst (categories ! 1)"
    and c2: "get_app_category ''Code Browser'' ''/Applications/Code Browser.app'' =
      fst (categories ! 0)"
    using len m0 m1 only by blast+
  from tie no_override no_ubuntu code browser
  have c4: "get_app_category ''Code Browser'' ''/Applications/Code Browser.app'' = ''Development''"
    by blast
  from no_override no_ubuntu len m0 m1 rest code browser c1 c2 c3 c4 show ?thesis
    by simp
qed

text \<open>
  C2 says of every name with keywords of two categories that the classifier returns the
  one that comes first in the table. It does not when the override table or the
  \<open>ubuntu\<close> rule settles the name before the scan: \<open>Google Slides\<close> contains \<open>ide\<close>
  (Development) and \<open>slides\<close> (Productivity) and is an override key for Productivity;
  \<open>Ubuntu Code\<close> contains \<open>code\<close> (Development) and \<open>ubuntu\<close> (Virtualization) and the
  \<open>ubuntu\<close> rule returns Virtualization. Each time the classifier returns the later
  category.
\<close>

theorem keyword_table_order_tie_break_counterexample:
  "map (\<lambda>item. any_keyword (snd item) (lower ''Google Slides'')) categories =
     [True, False, False, True, False, False, False, False] \<and>
   fst (categories ! 0) = ''Development'' \<and>
   fst (categories ! 3) = ''Productivity'' \<and>
   get_app_category ''Google Slides'' ''/Applications/Google Slides.app'' = ''Productivity'' \<and>
   map (\<lambda>item. any_keyword (snd item) (lower ''Ubuntu Code'')) categories =
     [True, False, False, False, False, False, False, True] \<and>
   fst (categories ! 7) = ''Virtualization'' \<and>
   get_app_category ''Ubuntu Code'' ''/Applications/Ubuntu Code.app'' = ''Virtualization''"
proof -
  have a: "map (\<lambda>item. any_keyword (snd item) (lower ''Google Slides'')) categories =
     [True, False, False, True, False, False, False, False]"
    by code_simp
  have b: "fst (categories ! 0) = ''Development''" "fst (categories ! 3) = ''Productivity''"
    "fst (categories ! 7) = ''Virtualization''"
    by (simp_all add: categories_def)
  have c: "get_app_category ''Google Slides'' ''/Applications/Google Slides.app'' = ''Productivity''"
    by code_simp
  have d: "map (\<lambda>item. any_keyword (snd item) (lower ''Ubuntu Code'')) categories =
     [True, False, False, False, False, False, False, True]"
    by code_simp
  have e: "get_app_category ''Ubuntu Code'' ''/Applications/Ubuntu Code.app'' = ''Virtualization''"
    by code_simp
  from a b c d e show ?thesis by (intro conjI)
qed

section \<open>The classifier ignores its path argument\<close>

text \<open>
  C9: the classifier's output does not depend on the path argument: for every
  application name and every two paths \<open>p1\<close> and \<open>p2\<close>, the classifier returns the same
  category for \<open>(name, p1)\<close> and \<open>(name, p2)\<close>.
\<close>

theorem get_app_category_path_independent:
  "get_app_category app_name p1 = get_app_category app_name p2"
  by (simp add: get_app_category_def)

section \<open>System applications never reach the report\<close>

text \<open>
  C3: for every application name in the result set of the system-app enumerator, no
  entry for that name appears in the rendered report, whatever the classifier and the
  inclusion filter say about its record. The report consists of the header and the lines
  of its blocks; no entry of any block carries a name of the set, and a record with such
  a name can be taken out of the inventory without changing what is printed.
\<close>

theorem system_apps_never_reported:
  "n \<in> system_apps \<longrightarrow>
     (\<forall>block \<in> set (report_blocks system_apps installed_apps).
        \<forall>e \<in> set (snd block). name' e \<noteq> n) \<and>
     main system_apps installed_apps =
       report_header @ concat (map block_lines (report_blocks system_apps installed_apps)) \<and>
     (\<forall>app pre post. name app = n \<longrightarrow>
        main system_apps (pre @ app # post) = main system_apps (pre @ post))"
proof
  assume n: "n \<in> system_apps"
  have entries: "\<forall>block \<in> set (report_blocks system_apps installed_apps).
      \<forall>e \<in> set (snd block). name' e \<noteq> n"
  proof (intro ballI)
    fix block e
    assume "block \<in> set (report_blocks system_apps installed_apps)" "e \<in> set (snd block)"
    then obtain a where "reported system_apps a" "e = entry_of a"
      using report_blocks_entries by blast
    then have "name' e \<notin> system_apps"
      by (simp add: reported_def entry_of_def)
    with n show "name' e \<noteq> n" by blast
  qed
  have drop: "\<forall>app pre post. name app = n \<longrightarrow>
      main system_apps (pre @ app # post) = main system_apps (pre @ post)"
  proof (intro allI impI)
    fix app :: "string app_info" and pre post
    assume "name app = n"
    with n have "\<not> reported system_apps app" by (simp add: reported_def)
    then show "main system_apps (pre @ app # post) = main system_apps (pre @ post)"
      by (rule main_drop_record)
  qed
  from entries main_blocks drop
  show "(\<forall>block \<in> set (report_blocks system_apps installed_apps).
        \<forall>e \<in> set (snd block). name' e \<noteq> n) \<and>
     main system_apps installed_apps =
       report_header @ concat (map block_lines (report_blocks system_apps installed_apps)) \<and>
     (\<forall>app pre post. name app = n \<longrightarrow>
        main system_apps (pre @ app # post) = main system_apps (pre @ post))"
    by blast
qed

theorem system_apps_never_reported_witness:
  "''Tabby'' \<in> {''Mail'', ''Tabby''} \<and>
   name tabby = ''Tabby'' \<and>
   should_include_app tabby \<and>
   category_of tabby = ''Development'' \<and>
   report_blocks {''Mail'', ''Tabby''} [tabby, obsidian] =
     [(''Productivity'',
       [\<lparr>name' = ''Obsidian'', version' = ''1.2.0'', source = ''Verified Dev''\<rparr>])] \<and>
   main {''Mail'', ''Tabby''} [tabby, obsidian] = main {''Mail'', ''Tabby''} [obsidian] \<and>
   main {''Mail'', ''Tabby''} [tabby, obsidian] =
     report_header @
     [CHR 0x0A # ''Productivity:'', ''------------'',
      bullet @ '' Obsidian (v1.2.0) [Verified Dev]'']"
proof -
  have n: "''Tabby'' \<in> {''Mail'', ''Tabby''}"
    by simp
  have nm: "name tabby = ''Tabby''"
    by (simp add: tabby_def)
  have incl: "should_include_app tabby"
    by code_simp
  have cat: "category_of tabby = ''Development''"
    by code_simp
  have blocks: "report_blocks {''Mail'', ''Tabby''} [tabby, obsidian] =
     [(''Productivity'',
       [\<lparr>name' = ''Obsidian'', version' = ''1.2.0'', source = ''Verified Dev''\<rparr>])]"
    by code_simp
  note inst = system_apps_never_reported
    [of "''Tabby''" "{''Mail'', ''Tabby''}" "[tabby, obsidian]"]
  from inst n nm
  have "main {''Mail'', ''Tabby''} ([] @ tabby # [obsidian]) =
      main {''Mail'', ''Tabby''} ([] @ [obsidian])"
    by blast
  then have same: "main {''Mail'', ''Tabby''} [tabby, obsidian] = main {''Mail'', ''Tabby''} [obsidian]"
    by simp
  from inst n
  have "main {''Mail'', ''Tabby''} [tabby, obsidian] =
      report_header @ concat (map block_lines (report_blocks {''Mail'', ''Tabby''} [tabby, obsidian]))"
    by blast
  then have out: "main {''Mail'', ''Tabby''} [tabby, obsidian] =
     report_header @
     [CHR 0x0A # ''Productivity:'', ''------------'',
      bullet @ '' Obsidian (v1.2.0) [Verified Dev]'']"
    by (simp add: blocks block_lines_def category_header_def entry_line_def)
  from n nm incl cat blocks same out show ?thesis
    by (intro conjI)
qed


section \<open>Records obtained from the vendor never reach the report\<close>

text \<open>
  C4: for every record whose \<open>obtained_from\<close> equals \<open>apple\<close> when lowercased, the
  inclusion filter returns false, whatever its name and path, and the record appears
  nowhere in the report: taking it out of the inventory does not change what is printed,
  and every entry of the report comes from a record that passes the filter and whose
  source is not the vendor.
\<close>

theorem apple_source_never_reported:
  "lower (obtained_from app) = ''apple'' \<longrightarrow>
     \<not> should_include_app app \<and>
     main system_apps (pre @ app # post) = main system_apps (pre @ post) \<and>
     (\<forall>block \<in> set (report_blocks system_apps installed_apps). \<forall>e \<in> set (snd block).
        \<exists>a \<in> set installed_apps.
          e = entry_of a \<and> should_include_app a \<and> lower (obtained_from a) \<noteq> ''apple'')"
proof
  assume apple: "lower (obtained_from app) = ''apple''"
  then have excl: "\<not> should_include_app app"
    using should_include_app_not_apple by blast
  then have "\<not> reported system_apps app"
    by (simp add: reported_def)
  then have drop: "main system_apps (pre @ app # post) = main system_apps (pre @ post)"
    by (rule main_drop_record)
  have entries: "\<forall>block \<in> set (report_blocks system_apps installed_apps).
      \<forall>e \<in> set (snd block). \<exists>a \<in> set installed_apps.
          e = entry_of a \<and> should_include_app a \<and> lower (obtained_from a) \<noteq> ''apple''"
  proof (intro ballI)
    fix block e
    assume "block \<in> set (report_blocks system_apps installed_apps)" "e \<in> set (snd block)"
    then obtain a where a: "a \<in> set installed_apps" "reported system_apps a" "e = entry_of a"
      using report_blocks_entries by blast
    from a(2) have "should_include_app a" by (simp add: reported_def)
    with a show "\<exists>a \<in> set installed_apps.
          e = entry_of a \<and> should_include_app a \<and> lower (obtained_from a) \<noteq> ''apple''"
      using should_include_app_not_apple by blast
  qed
  from excl drop entries
  show "\<not> should_include_app app \<and>
     main system_apps (pre @ app # post) = main system_apps (pre @ post) \<and>
     (\<forall>block \<in> set (report_blocks system_apps installed_apps). \<forall>e \<in> set (snd block).
        \<exists>a \<in> set installed_apps.
          e = entry_of a \<and> should_include_app a \<and> lower (obtained_from a) \<noteq> ''apple'')"
    by (intro conjI)
qed

theorem apple_source_never_reported_witness:
  "lower (obtained_from tabby_from_apple) = ''apple'' \<and>
   name tabby_from_apple \<notin> set excluded_apps \<and>
   \<not> list_ex (\<lambda>pre. startswith (path tabby_from_apple) pre) system_prefixes \<and>
   \<not> should_include_app tabby_from_apple \<and>
   main {} [obsidian, tabby_from_apple, vubuntu] = main {} [obsidian, vubuntu] \<and>
   report_blocks {} [obsidian, tabby_from_apple, vubuntu] =
     [(''Productivity'',
       [\<lparr>name' = ''Obsidian'', version' = ''1.2.0'', source = ''Verified Dev''\<rparr>]),
      (''Virtualization'',
       [\<lparr>name' = ''vUbuntu 22.04'', version' = ''Unknown'', source = ''Unknown''\<rparr>])]"
proof -
  have apple: "lower (obtained_from tabby_from_apple) = ''apple''"
    by code_simp
  have listed: "name tabby_from_apple \<notin> set excluded_apps"
    by code_simp
  have prefixes: "\<not> list_ex (\<lambda>pre. startswith (path tabby_from_apple) pre) system_prefixes"
    by code_simp
  have blocks: "report_blocks {} [obsidian, tabby_from_apple, vubuntu] =
     [(''Productivity'',
       [\<lparr>name' = ''Obsidian'', version' = ''1.2.0'', source = ''Verified Dev''\<rparr>]),
      (''Virtualization'',
       [\<lparr>name' = ''vUbuntu 22.04'', version' = ''Unknown'', source = ''Unknown''\<rparr>])]"
    by code_simp
  note inst = apple_source_never_reported
    [of tabby_from_apple "{}" "[obsidian]" "[vubuntu]" "[obsidian, tabby_from_apple, vubuntu]"]
  from inst apple have excl: "\<not> should_include_app tabby_from_apple"
    by blast
  from inst apple
  have "main {} ([obsidian] @ tabby_from_apple # [vubuntu]) = main {} ([obsidian] @ [vubuntu])"
    by blast
  then have same: "main {} [obsidian, tabby_from_apple, vubuntu] = main {} [obsidian, vubuntu]"
    by simp
  from apple listed prefixes excl same blocks show ?thesis
    by (intro conjI)
qed

section \<open>Order of the report\<close>

text \<open>
  C7: the category blocks are printed in lexicographic order of the category names, each
  category once; within a block the entries are sorted lexicographically by application
  name (the stable sort of the entries filed under the category); and a category with no
  surviving entry has no block, hence no header: the categories of the blocks are exactly
  the categories of the records that are kept.
\<close>

theorem report_sorted_and_without_empty_blocks:
  "main system_apps installed_apps =
     report_header @ concat (map block_lines (report_blocks system_apps installed_apps)) \<and>
   sorted (map fst (report_blocks system_apps installed_apps)) \<and>
   distinct (map fst (report_blocks system_apps installed_apps)) \<and>
   (\<forall>block \<in> set (report_blocks system_apps installed_apps).
      snd block \<noteq> [] \<and>
      sorted (map name' (snd block)) \<and>
      snd block = sort_key name' (entries_for system_apps installed_apps (fst block))) \<and>
   (\<forall>category. category \<in> fst ` set (report_blocks system_apps installed_apps) \<longleftrightarrow>
      (\<exists>app \<in> set installed_apps. reported system_apps app \<and> category_of app = category))"
proof -
  let ?blocks = "report_blocks system_apps installed_apps"
  have lines: "main system_apps installed_apps = report_header @ concat (map block_lines ?blocks)"
    by (rule main_blocks)
  have keys: "sorted (map fst ?blocks)" "distinct (map fst ?blocks)"
    using report_blocks_keys_sorted by blast+
  have each: "\<forall>block \<in> set ?blocks.
      snd block \<noteq> [] \<and> sorted (map name' (snd block)) \<and>
      snd block = sort_key name' (entries_for system_apps installed_apps (fst block))"
  proof
    fix block assume b: "block \<in> set ?blocks"
    obtain c es where block: "block = (c, es)" by (cases block)
    with b have es: "es = sort_key name' (entries_for system_apps installed_apps c)"
      and ne: "entries_for system_apps installed_apps c \<noteq> []"
      by (simp_all add: report_blocks_member)
    from ne have "es \<noteq> []" by (simp add: es sort_key_Nil_iff)
    moreover have "sorted (map name' es)" by (simp only: es sorted_sort_key)
    ultimately show "snd block \<noteq> [] \<and> sorted (map name' (snd block)) \<and>
      snd block = sort_key name' (entries_for system_apps installed_apps (fst block))"
      using es by (simp add: block)
  qed
  have cats: "\<forall>category. category \<in> fst ` set ?blocks \<longleftrightarrow>
      (\<exists>app \<in> set installed_apps. reported system_apps app \<and> category_of app = category)"
  proof
    fix category
    have "category \<in> fst ` set ?blocks \<longleftrightarrow> (\<exists>es. (category, es) \<in> set ?blocks)"
      by force
    also have "\<dots> \<longleftrightarrow> entries_for system_apps installed_apps category \<noteq> []"
      by (simp add: report_blocks_member)
    also have "\<dots> \<longleftrightarrow>
        (\<exists>app \<in> set installed_apps. reported system_apps app \<and> category_of app = category)"
      by (rule entries_for_Nil_iff)
    finally show "category \<in> fst ` set ?blocks \<longleftrightarrow>
      (\<exists>app \<in> set installed_apps. reported system_apps app \<and> category_of app = category)" .
  qed
  from lines keys each cats show ?thesis
    by (intro conjI)
qed

theorem report_sorted_and_without_empty_blocks_witness:
  "report_blocks {} [steermouse, tabby, onyx, keynote] =
     [(''Development'',
       [\<lparr>name' = ''Tabby'', version' = ''1.0.207'', source = ''Verified Dev''\<rparr>]),
      (''Utilities'',
       [\<lparr>name' = ''OnyX'', version' = ''4.5.1'', source = ''Verified Dev''\<rparr>,
        \<lparr>name' = ''SteerMouse'', version' = ''Unknown'', source = ''Some Vendor''\<rparr>])] \<and>
   main {} [steermouse, tabby, onyx, keynote] =
     report_header @
     [CHR 0x0A # ''Development:'', ''-----------'',
      bullet @ '' Tabby (v1.0.207) [Verified Dev]'',
      CHR 0x0A # ''Utilities:'', ''---------'',
      bullet @ '' OnyX (v4.5.1) [Verified Dev]'',
      bullet @ '' SteerMouse [Some Vendor]''] \<and>
   sorted [''Development'', ''Utilities''] \<and>
   sorted [''OnyX'', ''SteerMouse''] \<and>
   category_of keynote = ''Productivity'' \<and>
   \<not> reported {} keynote \<and>
   ''Productivity'' \<notin> fst ` set (report_blocks {} [steermouse, tabby, onyx, keynote])"
proof -
  have blocks: "report_blocks {} [steermouse, tabby, onyx, keynote] =
     [(''Development'',
       [\<lparr>name' = ''Tabby'', version' = ''1.0.207'', source = ''Verified Dev''\<rparr>]),
      (''Utilities'',
       [\<lparr>name' = ''OnyX'', version' = ''4.5.1'', source = ''Verified Dev''\<rparr>,
        \<lparr>name' = ''SteerMouse'', version' = ''Unknown'', source = ''Some Vendor''\<rparr>])]"
    by code_simp
  note inst = report_sorted_and_without_empty_blocks
    [of "{}" "[steermouse, tabby, onyx, keynote]"]
  from inst
  have "main {} [steermouse, tabby, onyx, keynote] =
      report_header @
      concat (map block_lines (report_blocks {} [steermouse, tabby, onyx, keynote]))"
    by blast
  then have out: "main {} [steermouse, tabby, onyx, keynote] =
     report_header @
     [CHR 0x0A # ''Development:'', ''-----------'',
      bullet @ '' Tabby (v1.0.207) [Verified Dev]'',
      CHR 0x0A # ''Utilities:'', ''---------'',
      bullet @ '' OnyX (v4.5.1) [Verified Dev]'',
      bullet @ '' SteerMouse [Some Vendor]'']"
    by (simp add: blocks block_lines_def category_header_def entry_line_def)
  from inst
  have "sorted (map fst (report_blocks {} [steermouse, tabby, onyx, keynote]))"
    by blast
  then have cats: "sorted [''Development'', ''Utilities'']"
    by (simp only: blocks list.map fst_conv)
  from inst
  have "\<forall>block \<in> set (report_blocks {} [steermouse, tabby, onyx, keynote]).
      sorted (map name' (snd block))"
    by blast
  then have names: "sorted [''OnyX'', ''SteerMouse'']"
    by (simp add: blocks)
  have k1: "category_of keynote = ''Productivity''"
    by code_simp
  have k2: "\<not> reported {} keynote"
    by code_simp
  have k3: "''Productivity'' \<notin> fst ` set (report_blocks {} [steermouse, tabby, onyx, keynote])"
    by (simp add: blocks)
  from blocks out cats names k1 k2 k3 show ?thesis
    by (intro conjI)
qed


section \<open>Format of an entry line\<close>

text \<open>
  C8: for every reported entry, if its version is the string \<open>Unknown\<close> its line is the
  bullet, the name and the bracketed source, with no version clause; for any other
  version the line is the bullet, the name, \<open>(v\<close>version\<open>)\<close> and the bracketed source.
  The report prints, under each category header, these lines for the entries of the
  block, and every entry takes its name, version and formatted source from a record of
  the inventory.
\<close>

theorem entry_line_format:
  "(version' e = ''Unknown'' \<longrightarrow>
      entry_line e = bullet @ '' '' @ name' e @ '' ['' @ source e @ '']'') \<and>
   (version' e \<noteq> ''Unknown'' \<longrightarrow>
      entry_line e =
        bullet @ '' '' @ name' e @ '' (v'' @ version' e @ '') ['' @ source e @ '']'') \<and>
   main system_apps installed_apps =
     report_header @
     concat (map (\<lambda>block. category_header (fst block) @ map entry_line (snd block))
               (report_blocks system_apps installed_apps)) \<and>
   (\<forall>block \<in> set (report_blocks system_apps installed_apps). \<forall>e \<in> set (snd block).
      \<exists>app \<in> set installed_apps.
        name' e = name app \<and> version' e = version app \<and>
        source e = format_source (obtained_from app))"
proof -
  have unknown: "version' e = ''Unknown'' \<longrightarrow>
      entry_line e = bullet @ '' '' @ name' e @ '' ['' @ source e @ '']''"
    by (simp add: entry_line_def)
  have known: "version' e \<noteq> ''Unknown'' \<longrightarrow>
      entry_line e =
        bullet @ '' '' @ name' e @ '' (v'' @ version' e @ '') ['' @ source e @ '']''"
    by (simp add: entry_line_def)
  have "block_lines = (\<lambda>block. category_header (fst block) @ map entry_line (snd block))"
    by (rule ext) (simp add: block_lines_def)
  with main_blocks [of system_apps installed_apps]
  have lines: "main system_apps installed_apps =
     report_header @
     concat (map (\<lambda>block. category_header (fst block) @ map entry_line (snd block))
               (report_blocks system_apps installed_apps))"
    by simp
  have entries: "\<forall>block \<in> set (report_blocks system_apps installed_apps).
      \<forall>e \<in> set (snd block). \<exists>app \<in> set installed_apps.
        name' e = name app \<and> version' e = version app \<and>
        source e = format_source (obtained_from app)"
  proof (intro ballI)
    fix block e
    assume "block \<in> set (report_blocks system_apps installed_apps)" "e \<in> set (snd block)"
    then obtain a where "a \<in> set installed_apps" "e = entry_of a"
      using report_blocks_entries by blast
    then show "\<exists>app \<in> set installed_apps.
        name' e = name app \<and> version' e = version app \<and>
        source e = format_source (obtained_from app)"
      by (auto simp: entry_of_def)
  qed
  from unknown known lines entries show ?thesis
    by (intro conjI)
qed

theorem entry_line_format_witness:
  "version' (entry_of vubuntu) = ''Unknown'' \<and>
   entry_line (entry_of vubuntu) = bullet @ '' vUbuntu 22.04 [Unknown]'' \<and>
   version' (entry_of obsidian) \<noteq> ''Unknown'' \<and>
   entry_line (entry_of obsidian) = bullet @ '' Obsidian (v1.2.0) [Verified Dev]'' \<and>
   report_blocks {} [obsidian, vubuntu] =
     [(''Productivity'', [entry_of obsidian]), (''Virtualization'', [entry_of vubuntu])] \<and>
   main {} [obsidian, vubuntu] =
     report_header @
     [CHR 0x0A # ''Productivity:'', ''------------'',
      bullet @ '' Obsidian (v1.2.0) [Verified Dev]'',
      CHR 0x0A # ''Virtualization:'', ''--------------'',
      bullet @ '' vUbuntu 22.04 [Unknown]'']"
proof -
  have e1: "entry_of vubuntu =
      \<lparr>name' = ''vUbuntu 22.04'', version' = ''Unknown'', source = ''Unknown''\<rparr>"
    by code_simp
  have e2: "entry_of obsidian =
      \<lparr>name' = ''Obsidian'', version' = ''1.2.0'', source = ''Verified Dev''\<rparr>"
    by code_simp
  have v1: "version' (entry_of vubuntu) = ''Unknown''"
    by (simp add: e1)
  have v2: "version' (entry_of obsidian) \<noteq> ''Unknown''"
    by (simp add: e2)
  from entry_line_format [of "entry_of vubuntu" "{}" "[obsidian, vubuntu]"] v1
  have "entry_line (entry_of vubuntu) =
      bullet @ '' '' @ name' (entry_of vubuntu) @ '' ['' @ source (entry_of vubuntu) @ '']''"
    by blast
  then have l1: "entry_line (entry_of vubuntu) = bullet @ '' vUbuntu 22.04 [Unknown]''"
    by (simp add: e1)
  from entry_line_format [of "entry_of obsidian" "{}" "[obsidian, vubuntu]"] v2
  have "entry_line (entry_of obsidian) =
      bullet @ '' '' @ name' (entry_of obsidian) @ '' (v'' @ version' (entry_of obsidian) @
        '') ['' @ source (entry_of obsidian) @ '']''"
    by blast
  then have l2: "entry_line (entry_of obsidian) = bullet @ '' Obsidian (v1.2.0) [Verified Dev]''"
    by (simp add: e2)
  have "report_blocks {} [obsidian, vubuntu] =
     [(''Productivity'',
       [\<lparr>name' = ''Obsidian'', version' = ''1.2.0'', source = ''Verified Dev''\<rparr>]),
      (''Virtualization'',
       [\<lparr>name' = ''vUbuntu 22.04'', version' = ''Unknown'', source = ''Unknown''\<rparr>])]"
    by code_simp
  then have blocks: "report_blocks {} [obsidian, vubuntu] =
     [(''Productivity'', [entry_of obsidian]), (''Virtualization'', [entry_of vubuntu])]"
    by (simp only: e1 e2)
  from entry_line_format [of "entry_of obsidian" "{}" "[obsidian, vubuntu]"]
  have "main {} [obsidian, vubuntu] =
     report_header @
     concat (map (\<lambda>block. category_header (fst block) @ map entry_line (snd block))
               (report_blocks {} [obsidian, vubuntu]))"
    by blast
  then have out: "main {} [obsidian, vubuntu] =
     report_header @
     [CHR 0x0A # ''Productivity:'', ''------------'',
      bullet @ '' Obsidian (v1.2.0) [Verified Dev]'',
      CHR 0x0A # ''Virtualization:'', ''--------------'',
      bullet @ '' vUbuntu 22.04 [Unknown]'']"
    by (simp add: blocks l1 l2 category_header_def)
  from v1 l1 v2 l2 blocks out show ?thesis
    by (intro conjI)
qed

section \<open>The render-time drop of vendor entries changes nothing\<close>

text \<open>
  C10: for every record for which the inclusion filter returns true, formatting its
  \<open>obtained_from\<close> field never yields \<open>Apple\<close>; so the report printed with the
  render-time filter on the source \<open>Apple\<close> is the report printed without it.
\<close>

theorem render_time_apple_drop_is_noop:
  "(should_include_app app \<longrightarrow> format_source (obtained_from app) \<noteq> ''Apple'') \<and>
   main system_apps installed_apps = main_no_drop system_apps installed_apps"
proof
  show "should_include_app app \<longrightarrow> format_source (obtained_from app) \<noteq> ''Apple''"
    by (simp add: format_source_Apple_iff should_include_app_not_apple)
  show "main system_apps installed_apps = main_no_drop system_apps installed_apps"
    by (rule main_no_drop_eq)
qed

theorem render_time_apple_drop_is_noop_witness:
  "should_include_app obsidian \<and>
   format_source (obtained_from obsidian) \<noteq> ''Apple'' \<and>
   main_no_drop {} [obsidian, keynote, tabby_from_apple] =
     report_header @
     [CHR 0x0A # ''Productivity:'', ''------------'',
      bullet @ '' Obsidian (v1.2.0) [Verified Dev]'']"
proof -
  have incl: "should_include_app obsidian"
    by code_simp
  note inst = render_time_apple_drop_is_noop [of obsidian "{}" "[obsidian, keynote, tabby_from_apple]"]
  from inst incl have src: "format_source (obtained_from obsidian) \<noteq> ''Apple''"
    by blast
  have "main {} [obsidian, keynote, tabby_from_apple] =
     report_header @
     [CHR 0x0A # ''Productivity:'', ''------------'',
      bullet @ '' Obsidian (v1.2.0) [Verified Dev]'']"
    by code_simp
  with inst have out: "main_no_drop {} [obsidian, keynote, tabby_from_apple] =
     report_header @
     [CHR 0x0A # ''Productivity:'', ''------------'',
      bullet @ '' Obsidian (v1.2.0) [Verified Dev]'']"
    by simp
  from incl src out show ?thesis
    by (intro conjI)
qed

section \<open>Failures of the inventory command\<close>

text \<open>
  C5, as the code has it: the fetcher never looks at the exit status of the inventory
  command. It catches every exception of the \<open>try\<close> block, prints one line
  \<open>Error getting installed apps: \<close> followed by the message, and returns the empty list:
  when running the command raises; when \<open>json.loads\<close> rejects the output; when the
  parsed value is no dict; when the value under \<open>SPApplicationsDataType\<close> is not
  iterable (\<open>null\<close>, a boolean, a number); when an element of the list under that key
  is no dict, whatever dicts come before it; and when the value under the key is a
  non-empty dict or string, whose keys or characters are no dicts. Otherwise nothing is
  printed: a list of dicts yields one record for each dict, with \<open>Unknown\<close> for an
  absent field, and an absent key, an empty dict or an empty string yields the empty
  list. So in every case the fetcher either prints that one line and returns the empty
  list, or prints nothing, and \<open>main\<close> on the empty list prints the header only: the
  pipeline goes on. The exit status does not matter: a run that exits with any status
  is treated as the run with the same output and status 0.
\<close>

theorem get_installed_apps_recovers:
  "get_installed_apps loads (Raised m) = ([''Error getting installed apps: '' @ m], []) \<and>
   (loads out = Inl m \<longrightarrow>
      get_installed_apps loads (Completed rc out) =
        ([''Error getting installed apps: '' @ m], [])) \<and>
   (\<forall>data. loads out = Inr data \<and> \<not> is_dict data \<longrightarrow>
      get_installed_apps loads (Completed rc out) =
        ([''Error getting installed apps: '' @ quoted (type_name data) @
            '' object has no attribute '' @ quoted ''get''], [])) \<and>
   (\<forall>d x. loads out = Inr (JDict d) \<and> map_of d ''SPApplicationsDataType'' = Some x \<and>
      (x = JNull \<or> (\<exists>b. x = JBool b) \<or> (\<exists>i. x = JInt i) \<or> (\<exists>f. x = JFloat f)) \<longrightarrow>
      get_installed_apps loads (Completed rc out) =
        ([''Error getting installed apps: '' @ quoted (type_name x) @
            '' object is not iterable''], [])) \<and>
   (\<forall>d ds x rest. loads out = Inr (JDict d) \<and>
      map_of d ''SPApplicationsDataType'' = Some (JList (map JDict ds @ x # rest)) \<and>
      \<not> is_dict x \<longrightarrow>
      get_installed_apps loads (Completed rc out) =
        ([''Error getting installed apps: '' @ quoted (type_name x) @
            '' object has no attribute '' @ quoted ''get''], [])) \<and>
   (\<forall>d x. loads out = Inr (JDict d) \<and> map_of d ''SPApplicationsDataType'' = Some x \<and>
      ((\<exists>e. x = JDict e \<and> e \<noteq> []) \<or> (\<exists>s. x = JStr s \<and> s \<noteq> [])) \<longrightarrow>
      get_installed_apps loads (Completed rc out) =
        ([''Error getting installed apps: '' @ quoted ''str'' @
            '' object has no attribute '' @ quoted ''get''], [])) \<and>
   (\<forall>d ds. loads out = Inr (JDict d) \<and>
      map_of d ''SPApplicationsDataType'' = Some (JList (map JDict ds)) \<longrightarrow>
      get_installed_apps loads (Completed rc out) = ([], map record_of ds)) \<and>
   (\<forall>d. loads out = Inr (JDict d) \<and>
      (map_of d ''SPApplicationsDataType'' = None \<or>
       map_of d ''SPApplicationsDataType'' = Some (JDict []) \<or>
       map_of d ''SPApplicationsDataType'' = Some (JStr [])) \<longrightarrow>
      get_installed_apps loads (Completed rc out) = ([], [])) \<and>
   (\<forall>e. try_get_installed_apps loads outcome = Inl e \<longrightarrow>
      get_installed_apps loads outcome = ([''Error getting installed apps: '' @ message e], [])) \<and>
   ((\<exists>line. get_installed_apps loads outcome = ([line], [])) \<or>
      fst (get_installed_apps loads outcome) = []) \<and>
   get_installed_apps loads (Completed rc out) = get_installed_apps loads (Completed 0 out) \<and>
   main system_apps [] = report_header"
proof -
  have raised: "get_installed_apps loads (Raised m) = ([''Error getting installed apps: '' @ m], [])"
    by (simp add: get_installed_apps_def try_get_installed_apps_def)
  have unparseable: "loads out = Inl m \<longrightarrow>
      get_installed_apps loads (Completed rc out) =
        ([''Error getting installed apps: '' @ m], [])"
    by (simp add: get_installed_apps_def try_get_installed_apps_def)
  have shape: "\<forall>data. loads out = Inr data \<and> \<not> is_dict data \<longrightarrow>
      get_installed_apps loads (Completed rc out) =
        ([''Error getting installed apps: '' @ quoted (type_name data) @
            '' object has no attribute '' @ quoted ''get''], [])"
    by (simp add: get_installed_apps_def try_get_installed_apps_def get_not_dict)
  have not_iterable: "\<forall>d x. loads out = Inr (JDict d) \<and>
      map_of d ''SPApplicationsDataType'' = Some x \<and>
      (x = JNull \<or> (\<exists>b. x = JBool b) \<or> (\<exists>i. x = JInt i) \<or> (\<exists>f. x = JFloat f)) \<longrightarrow>
      get_installed_apps loads (Completed rc out) =
        ([''Error getting installed apps: '' @ quoted (type_name x) @
            '' object is not iterable''], [])"
    using fetch_not_iterable [of loads out _ _ rc] by blast
  have element: "\<forall>d ds x rest. loads out = Inr (JDict d) \<and>
      map_of d ''SPApplicationsDataType'' = Some (JList (map JDict ds @ x # rest)) \<and>
      \<not> is_dict x \<longrightarrow>
      get_installed_apps loads (Completed rc out) =
        ([''Error getting installed apps: '' @ quoted (type_name x) @
            '' object has no attribute '' @ quoted ''get''], [])"
    using fetch_element_not_dict [of loads out _ _ _ _ rc] by blast
  have keys: "\<forall>d x. loads out = Inr (JDict d) \<and>
      map_of d ''SPApplicationsDataType'' = Some x \<and>
      ((\<exists>e. x = JDict e \<and> e \<noteq> []) \<or> (\<exists>s. x = JStr s \<and> s \<noteq> [])) \<longrightarrow>
      get_installed_apps loads (Completed rc out) =
        ([''Error getting installed apps: '' @ quoted ''str'' @
            '' object has no attribute '' @ quoted ''get''], [])"
    using fetch_keys_or_characters [of loads out _ _ rc] by blast
  have records: "\<forall>d ds. loads out = Inr (JDict d) \<and>
      map_of d ''SPApplicationsDataType'' = Some (JList (map JDict ds)) \<longrightarrow>
      get_installed_apps loads (Completed rc out) = ([], map record_of ds)"
    using fetch_records [of loads out _ _ rc] by blast
  have absent: "\<forall>d. loads out = Inr (JDict d) \<and>
      (map_of d ''SPApplicationsDataType'' = None \<or>
       map_of d ''SPApplicationsDataType'' = Some (JDict []) \<or>
       map_of d ''SPApplicationsDataType'' = Some (JStr [])) \<longrightarrow>
      get_installed_apps loads (Completed rc out) = ([], [])"
    using fetch_nothing [of loads out _ rc] by blast
  have caught: "\<forall>e. try_get_installed_apps loads outcome = Inl e \<longrightarrow>
      get_installed_apps loads outcome = ([''Error getting installed apps: '' @ message e], [])"
    by (simp add: get_installed_apps_def)
  have status: "get_installed_apps loads (Completed rc out) = get_installed_apps loads (Completed 0 out)"
    by (simp add: get_installed_apps_def try_get_installed_apps_def)
  from raised unparseable shape not_iterable element keys records absent caught
    get_installed_apps_cases status main_Nil
  show ?thesis by (intro conjI)
qed

theorem get_installed_apps_recovers_witness:
  "get_installed_apps inventory_loads (Raised ''[Errno 2] No such file or directory'') =
     ([''Error getting installed apps: [Errno 2] No such file or directory''], []) \<and>
   inventory_loads [] = Inl ''Expecting value: line 1 column 1 (char 0)'' \<and>
   get_installed_apps inventory_loads (Completed 1 []) =
     ([''Error getting installed apps: Expecting value: line 1 column 1 (char 0)''], []) \<and>
   inventory_loads ''[]'' = Inr (JList []) \<and>
   \<not> is_dict (JList []) \<and>
   get_installed_apps inventory_loads (Completed 0 ''[]'') =
     ([''Error getting installed apps: '' @ quoted ''list'' @
         '' object has no attribute '' @ quoted ''get''], []) \<and>
   inventory_loads null_text = Inr (JDict [(''SPApplicationsDataType'', JNull)]) \<and>
   get_installed_apps inventory_loads (Completed 0 null_text) =
     ([''Error getting installed apps: '' @ quoted ''NoneType'' @
         '' object is not iterable''], []) \<and>
   inventory_loads broken_text =
     Inr (JDict [(''SPApplicationsDataType'',
                  JList (map JDict [[(''_name'', JStr ''Foo'')]] @ JInt 3 # []))]) \<and>
   \<not> is_dict (JInt 3) \<and>
   get_installed_apps inventory_loads (Completed 0 broken_text) =
     ([''Error getting installed apps: '' @ quoted ''int'' @
         '' object has no attribute '' @ quoted ''get''], []) \<and>
   try_get_installed_apps inventory_loads (Completed 0 broken_text) =
     Inl (AttributeError (quoted ''int'' @ '' object has no attribute '' @ quoted ''get'')) \<and>
   inventory_loads string_text = Inr (JDict [(''SPApplicationsDataType'', JStr ''none'')]) \<and>
   get_installed_apps inventory_loads (Completed 0 string_text) =
     ([''Error getting installed apps: '' @ quoted ''str'' @
         '' object has no attribute '' @ quoted ''get''], []) \<and>
   inventory_loads inventory_text =
     Inr (JDict [(''SPApplicationsDataType'', JList (map JDict [[(''_name'', JStr ''Foo'')]]))]) \<and>
   get_installed_apps inventory_loads (Completed 1 inventory_text) =
     ([], map record_of [[(''_name'', JStr ''Foo'')]]) \<and>
   inventory_loads ''{}'' = Inr (JDict []) \<and>
   get_installed_apps inventory_loads (Completed 0 ''{}'') = ([], [])"
proof -
  note l = sample_loads
  have nd: "\<not> is_dict (JList [])" "\<not> is_dict (JInt 3)"
    by simp_all
  have l4: "inventory_loads broken_text =
     Inr (JDict [(''SPApplicationsDataType'',
                  JList (map JDict [[(''_name'', JStr ''Foo'')]] @ JInt 3 # []))])"
    using l(4) by simp
  have l6: "inventory_loads inventory_text =
     Inr (JDict [(''SPApplicationsDataType'', JList (map JDict [[(''_name'', JStr ''Foo'')]]))])"
    using l(6) by simp
  have k4: "map_of [(''SPApplicationsDataType'', JNull)] ''SPApplicationsDataType'' = Some JNull"
    and k5: "map_of [(''SPApplicationsDataType'',
                      JList (map JDict [[(''_name'', JStr ''Foo'')]] @ JInt 3 # []))]
        ''SPApplicationsDataType'' =
        Some (JList (map JDict [[(''_name'', JStr ''Foo'')]] @ JInt 3 # []))"
    and k6: "map_of [(''SPApplicationsDataType'', JStr ''none'')] ''SPApplicationsDataType'' =
        Some (JStr ''none'')"
    and k7: "map_of [(''SPApplicationsDataType'', JList (map JDict [[(''_name'', JStr ''Foo'')]]))]
        ''SPApplicationsDataType'' = Some (JList (map JDict [[(''_name'', JStr ''Foo'')]]))"
    and k8: "map_of ([] :: (string \<times> json) list) ''SPApplicationsDataType'' = None"
    by simp_all
  have t3: "try_get_installed_apps inventory_loads (Completed 0 broken_text) =
     Inl (AttributeError (quoted ''int'' @ '' object has no attribute '' @ quoted ''get''))"
    by (simp add: try_get_installed_apps_def l(4) make_app_info_def)
  note r1 = get_installed_apps_recovers
    [of inventory_loads "''[Errno 2] No such file or directory''" "[]" 1
      "Completed 0 broken_text" "{}"]
  note r2 = get_installed_apps_recovers
    [of inventory_loads "''Expecting value: line 1 column 1 (char 0)''" "[]" 1
      "Completed 0 broken_text" "{}"]
  note r3 = get_installed_apps_recovers
    [of inventory_loads "[]" "''[]''" 0 "Completed 0 broken_text" "{}"]
  note r4 = get_installed_apps_recovers
    [of inventory_loads "[]" null_text 0 "Completed 0 broken_text" "{}"]
  note r5 = get_installed_apps_recovers
    [of inventory_loads "[]" broken_text 0 "Completed 0 broken_text" "{}"]
  note r6 = get_installed_apps_recovers
    [of inventory_loads "[]" string_text 0 "Completed 0 broken_text" "{}"]
  note r7 = get_installed_apps_recovers
    [of inventory_loads "[]" inventory_text 1 "Completed 0 broken_text" "{}"]
  note r8 = get_installed_apps_recovers
    [of inventory_loads "[]" "''{}''" 0 "Completed 0 broken_text" "{}"]
  from r1
  have c1: "get_installed_apps inventory_loads (Raised ''[Errno 2] No such file or directory'') =
     ([''Error getting installed apps: [Errno 2] No such file or directory''], [])"
    by simp
  from r2 l(1)
  have c2: "get_installed_apps inventory_loads (Completed 1 []) =
     ([''Error getting installed apps: Expecting value: line 1 column 1 (char 0)''], [])"
    by simp
  from r3 l(2) nd(1)
  have c3: "get_installed_apps inventory_loads (Completed 0 ''[]'') =
     ([''Error getting installed apps: '' @ quoted ''list'' @
         '' object has no attribute '' @ quoted ''get''], [])"
    by simp
  from r4 l(3) k4
  have "get_installed_apps inventory_loads (Completed 0 null_text) =
     ([''Error getting installed apps: '' @ quoted (type_name JNull) @
         '' object is not iterable''], [])"
    by blast
  then have c4: "get_installed_apps inventory_loads (Completed 0 null_text) =
     ([''Error getting installed apps: '' @ quoted ''NoneType'' @
         '' object is not iterable''], [])"
    by simp
  from r5 l4 k5 nd(2)
  have "get_installed_apps inventory_loads (Completed 0 broken_text) =
     ([''Error getting installed apps: '' @ quoted (type_name (JInt 3)) @
         '' object has no attribute '' @ quoted ''get''], [])"
    by blast
  then have c5: "get_installed_apps inventory_loads (Completed 0 broken_text) =
     ([''Error getting installed apps: '' @ quoted ''int'' @
         '' object has no attribute '' @ quoted ''get''], [])"
    by simp
  have "''none'' \<noteq> []"
    by simp
  with r6 l(5) k6
  have c6: "get_installed_apps inventory_loads (Completed 0 string_text) =
     ([''Error getting installed apps: '' @ quoted ''str'' @
         '' object has no attribute '' @ quoted ''get''], [])"
    by blast
  from r7 l6 k7
  have c7: "get_installed_apps inventory_loads (Completed 1 inventory_text) =
     ([], map record_of [[(''_name'', JStr ''Foo'')]])"
    by blast
  from r8 l(7) k8
  have c8: "get_installed_apps inventory_loads (Completed 0 ''{}'') = ([], [])"
    by blast
  from c1 l(1) c2 l(2) nd(1) c3 l(3) c4 l4 nd(2) c5 t3 l(5) c6 l6 c7 l(7) c8 show ?thesis
    by (intro conjI)
qed

text \<open>
  C5 claims that a non-zero exit status is a failure that yields the empty list and a
  logged line. It is not: a command that exits with status 1 and still writes a
  well-formed inventory has its records returned, and nothing is printed.
\<close>

theorem get_installed_apps_nonzero_exit_counterexample:
  "get_installed_apps inventory_loads (Completed 1 inventory_text) =
     ([], [\<lparr>name = JStr ''Foo'', path = JStr ''Unknown'', version = JStr ''Unknown'',
            obtained_from = JStr ''Unknown'', last_modified = JStr ''Unknown''\<rparr>])"
  by (simp add: get_installed_apps_def try_get_installed_apps_def inventory_loads_def
      make_app_info_def)

section \<open>The enumerator removes every occurrence of the bundle suffix\<close>

text \<open>
  C6 says that the display name of a bundle is its directory entry with the suffix
  \<open>.app\<close> stripped from the end, the rest unchanged. The enumerator calls
  \<open>replace(".app", "")\<close>, which removes every occurrence: the entry
  \<open>Web.app Viewer.app\<close> ends with the suffix, and its name without the suffix is
  \<open>Web.app Viewer\<close>, but the enumerator returns \<open>Web Viewer\<close>. Entries without the
  suffix are left out, and a path that does not exist contributes nothing.
\<close>

theorem get_system_apps_removes_inner_suffix:
  "get_system_apps bundle_fs = Inr {''Mail'', ''Web Viewer''} \<and>
   endswith ''Web.app Viewer.app'' ''.app'' \<and>
   ''Web.app Viewer.app'' = ''Web.app Viewer'' @ ''.app'' \<and>
   ''Web.app Viewer'' \<notin> {''Mail'', ''Web Viewer''}"
proof -
  have "bundle_names [''Mail.app'', ''Web.app Viewer.app'', ''notes.txt''] = [''Mail'', ''Web Viewer'']"
    by code_simp
  then have "get_system_apps bundle_fs = Inr {''Mail'', ''Web Viewer''}"
    by (simp add: get_system_apps_def system_paths_def bundle_fs_def)
  moreover have "endswith ''Web.app Viewer.app'' ''.app''"
    by (simp add: endswith_def)
  ultimately show ?thesis by simp
qed

end
